theory Spec2Isabelle
  imports Main "HOL-Library.Word" "HOL-Library.Signed_Division" "HOL-Library.Multiset"
begin

section \<open>Go primitives used by the pipeline\<close>

text \<open>
  Go's \<open>int\<close> on a 64-bit platform: a 64-bit two's-complement word. \<open>+\<close> and \<open>*\<close> wrap
  around; \<open>sint\<close> reads the signed value, and the program's comparisons \<open>a <= b\<close> are
  \<open>sint a \<le> sint b\<close>.
\<close>

type_synonym go_int = "64 word"

text \<open>Go's \<open>/\<close> and \<open>%\<close> on \<open>int\<close>: truncated towards zero.\<close>

definition go_quot :: "go_int \<Rightarrow> go_int \<Rightarrow> go_int" where
  "go_quot a b = word_of_int (sint a sdiv sint b)"

definition go_rem :: "go_int \<Rightarrow> go_int \<Rightarrow> go_int" where
  "go_rem a b = word_of_int (sint a smod sint b)"

text \<open>Go's \<open>error\<close> values: opaque, carrying a message.\<close>

datatype error = Error string

subsection \<open>strconv.Atoi\<close>

definition is_digit :: "char \<Rightarrow> bool" where
  "is_digit c = (48 \<le> (of_char c :: nat) \<and> (of_char c :: nat) \<le> 57)"

definition digit_value :: "char \<Rightarrow> nat" where
  "digit_value c = of_char c - 48"

definition decimal :: "string \<Rightarrow> nat" where
  "decimal ds = foldl (\<lambda>n c. n * 10 + digit_value c) 0 ds"

text \<open>
  \<open>strconv.Atoi(s)\<close>: an optional sign \<open>+\<close> or \<open>-\<close>, then one or more decimal digits
  (base 10, so no underscores); a value outside the range of \<open>int\<close> is an error as well.
  \<open>None\<close> stands for \<open>err != nil\<close>: the program looks at nothing else of the error.
\<close>

definition Atoi :: "string \<Rightarrow> go_int option" where
  "Atoi s =
     (let neg = (s \<noteq> [] \<and> hd s = CHR ''-'');
          ds = (if s \<noteq> [] \<and> (hd s = CHR ''-'' \<or> hd s = CHR ''+'') then tl s else s)
      in if ds = [] \<or> \<not> list_all is_digit ds then None
         else if neg then (if decimal ds \<le> 2 ^ 63 then Some (- word_of_nat (decimal ds)) else None)
         else (if decimal ds < 2 ^ 63 then Some (word_of_nat (decimal ds)) else None))"

subsection \<open>fmt.Sprintf with the verb \<open>%02d\<close>\<close>

definition digit_char :: "nat \<Rightarrow> char" where
  "digit_char d = ''0123456789'' ! d"

fun decimal_digits :: "nat \<Rightarrow> string" where
  "decimal_digits n =
     (if n < 10 then [digit_char n] else decimal_digits (n div 10) @ [digit_char (n mod 10)])"

declare decimal_digits.simps [simp del]

definition zero_pad :: "nat \<Rightarrow> string \<Rightarrow> string" where
  "zero_pad prec ds = replicate (prec - length ds) (CHR ''0'') @ ds"

text \<open>
  \<open>%02d\<close>: the decimal digits of the magnitude, padded with zeros to the width 2; a
  negative number gives up one column of the width to its sign, so \<open>-5\<close> prints as
  \<open>-5\<close> and \<open>5\<close> as \<open>05\<close>.
\<close>

definition Sprintf_02d :: "go_int \<Rightarrow> string" where
  "Sprintf_02d v =
     (if sint v < 0 then CHR ''-'' # zero_pad 1 (decimal_digits (nat (- sint v)))
      else zero_pad 2 (decimal_digits (nat (sint v))))"

subsection \<open>strings.Split, strings.Join, strings.Trim\<close>

fun extend_first :: "char \<Rightarrow> string list \<Rightarrow> string list" where
  "extend_first c [] = [[c]]"
| "extend_first c (p # ps) = (c # p) # ps"

text \<open>\<open>strings.Split(s, ":")\<close>: the pieces of \<open>s\<close> between the colons; one piece more than colons.\<close>

fun Split :: "string \<Rightarrow> string list" where
  "Split [] = [[]]"
| "Split (c # cs) = (if c = CHR '':'' then [] # Split cs else extend_first c (Split cs))"

fun Join :: "string list \<Rightarrow> string \<Rightarrow> string" where
  "Join [] sep = []"
| "Join [x] sep = x"
| "Join (x # y # ys) sep = x @ sep @ Join (y # ys) sep"

text \<open>\<open>strings.Trim(s, " ")\<close>: \<open>s\<close> without its leading and trailing spaces.\<close>

definition Trim :: "string \<Rightarrow> string" where
  "Trim s = rev (dropWhile (\<lambda>c. c = CHR '' '') (rev (dropWhile (\<lambda>c. c = CHR '' '') s)))"

section \<open>Data model\<close>

text \<open>
  Modelled from the spec: the records of \<open>pkg/model\<close> (\<open>Segment\<close>, \<open>TimeSpan\<close>,
  \<open>CastMember\<close>, \<open>MediaSummary\<close>, \<open>Media\<close>) are declared outside the source files at
  hand; their fields are the ones the commands read and write. A sequence number is
  a slice index, which never reaches the range where \<open>int\<close> wraps, so it is an \<open>int\<close>
  here. The fields of \<open>TimeSpan\<close> are \<open>Start\<close> and \<open>End\<close> in the source.
\<close>

record TimeSpan =
  spanStart :: string
  spanEnd :: string

record CastMember =
  CharacterName :: string
  ActorName :: string

record MediaSummary =
  Title :: string
  Category :: string
  Summary :: string
  MediaUrl :: string
  Director :: string
  ReleaseYear :: go_int
  Genre :: string
  Rating :: string
  Cast :: "CastMember list"
  SegmentTimeStamps :: "TimeSpan list"

record Segment =
  SequenceNumber :: int
  Start :: string
  End :: string
  Script :: string

record Media =
  Id :: string
  Title :: string
  Category :: string
  Summary :: string
  MediaUrl :: string
  LengthInSeconds :: go_int
  Director :: string
  ReleaseYear :: go_int
  Genre :: string
  Rating :: string
  Cast :: "CastMember list"
  Segments :: "Segment list"

record GCSObject =
  Bucket :: string
  Name :: string
  MIMEType :: string

text \<open>
  Modelled from the spec: \<open>model.NewMedia\<close> (in \<open>pkg/model\<close>) builds a \<open>Media\<close> with a
  freshly generated identity and nothing else filled in. The identity is the
  argument \<open>uuid\<close>.
\<close>

definition NewMedia :: "string \<Rightarrow> string \<Rightarrow> Media" where
  "NewMedia uuid fileName =
     \<lparr>Id = uuid, Title = [], Category = [], Summary = [], MediaUrl = [],
      LengthInSeconds = 0, Director = [], ReleaseYear = 0, Genre = [], Rating = [],
      Cast = [], Segments = []\<rparr>"

text \<open>
  Modelled from the spec: the \<open>cor.Context\<close> of \<open>pkg/cor\<close>, a store of named values
  (\<open>Get\<close>, \<open>Add\<close>) with error accumulation (\<open>AddError\<close>, \<open>HasErrors\<close>). The success and
  error counters of the running command (\<open>GetSuccessCounter\<close>, \<open>GetErrorCounter\<close> of
  \<open>cor.BaseCommand\<close>) are kept in the same record. A stored value is an \<open>interface{}\<close>;
  the type assertions of the commands become the cases of \<open>ctx_value\<close>.
\<close>

datatype ctx_value =
    SummaryValue MediaSummary
  | StringsValue "string list"
  | IntValue go_int
  | StringValue string
  | GCSValue GCSObject
  | MediaValue Media

record Context =
  store :: "string \<Rightarrow> ctx_value option"
  errs :: "(string \<times> error) list"
  errorCounter :: nat
  successCounter :: nat

definition AddError :: "string \<Rightarrow> error \<Rightarrow> Context \<Rightarrow> Context" where
  "AddError name e ctx = ctx\<lparr>errs := errs ctx @ [(name, e)]\<rparr>"

definition HasErrors :: "Context \<Rightarrow> bool" where
  "HasErrors ctx = (errs ctx \<noteq> [])"

definition Add :: "string \<Rightarrow> ctx_value \<Rightarrow> Context \<Rightarrow> Context" where
  "Add key v ctx = ctx\<lparr>store := (store ctx)(key \<mapsto> v)\<rparr>"

text \<open>What a call of \<open>Execute\<close> comes to: a panic, or a return with the context it leaves.\<close>

datatype outcome = Panic | Return Context

text \<open>An instant of \<open>time.Time\<close>: a point of a linear time line; \<open>Before\<close> is \<open><\<close>.\<close>

type_synonym Time = int

text \<open>
  The two structs of the worker pool. The field \<open>value\<close> of a response is \<open>val\<close> here.
  Of a job, the worker index, the time window, the rendered request and the failure
  slot are kept; its context, counters, tracing span and model handle are telemetry and
  handles of the inference call, which is a parameter.
\<close>

record SegmentResponse =
  val :: string
  err :: "error option"

record SegmentJob =
  workerId :: nat
  timeSpan :: "TimeSpan option"
  contents :: string
  err :: "error option"

text \<open>
  What the commands call outside this repository's source files, taken as parameters:
  the key \<open>cor.CtxOut\<close> and the key \<open>cloud.GetGCSObjectName()\<close>; \<open>json.Unmarshal\<close> into a
  \<open>[]*model.Segment\<close> (an element is \<open>None\<close> for a JSON \<open>null\<close>, which leaves a nil
  pointer); \<open>time.Parse\<close> (the instant it returns, also on an error, and the error);
  \<open>sort.Slice\<close>; the rendering of a job's prompt from the segment template
  (\<open>template.Execute\<close> over the vocabulary of \<open>CreateJob\<close>); and the inference call
  \<open>cloud.GenerateMultiModalResponse\<close>.
\<close>

record Env =
  CtxOut :: string
  GCSObjectName :: string
  json_Unmarshal :: "string \<Rightarrow> error + Segment option list"
  time_Parse :: "string \<Rightarrow> string \<Rightarrow> Time \<times> error option"
  sort_Slice :: "(Segment \<Rightarrow> Segment \<Rightarrow> bool) \<Rightarrow> Segment list \<Rightarrow> Segment list"
  template_Execute :: "string \<Rightarrow> nat \<Rightarrow> MediaSummary \<Rightarrow> GCSObject \<Rightarrow> TimeSpan \<Rightarrow> error + string"
  GenerateMultiModalResponse :: "SegmentJob \<Rightarrow> error + string"

section \<open>The assembly stage: \<open>MediaAssembly\<close>\<close>

definition DefaultMovieTimeFormat :: string where
  "DefaultMovieTimeFormat = ''15:04:05''"

record MediaAssembly =
  name :: string
  summaryParam :: string
  segmentParam :: string
  mediaObjectParam :: string
  mediaLengthParam :: string

definition formatSeconds :: "go_int \<Rightarrow> string" where
  "formatSeconds totalSeconds =
     (let hours = go_quot totalSeconds 3600;
          minutes = go_quot (go_rem totalSeconds 3600) 60;
          seconds = go_rem totalSeconds 60
      in Sprintf_02d hours @ '':'' @ Sprintf_02d minutes @ '':'' @ Sprintf_02d seconds)"

definition correctTimestamp :: "string \<Rightarrow> go_int \<Rightarrow> string" where
  "correctTimestamp timestampStr videoLength =
     (case Split timestampStr of
        [p0, p1, p2] \<Rightarrow>
          (case (Atoi p0, Atoi p1, Atoi p2) of
             (Some h, Some m, Some s) \<Rightarrow>
               (let originalSeconds = h * 3600 + m * 60 + s in
                if sint originalSeconds \<le> sint videoLength then timestampStr
                else
                  (let correctedSeconds = h * 60 + m in
                   if sint correctedSeconds \<le> sint videoLength
                   then ''00:'' @ Sprintf_02d h @ '':'' @ Sprintf_02d m
                   else formatSeconds videoLength))
           | _ \<Rightarrow> timestampStr)
      | _ \<Rightarrow> timestampStr)"

text \<open>The loop that repairs the two timestamps of every segment.\<close>

definition correctSegment :: "go_int \<Rightarrow> Segment \<Rightarrow> Segment" where
  "correctSegment mediaLengthInSeconds segment =
     segment\<lparr>Start := correctTimestamp (Start segment) mediaLengthInSeconds,
              End := correctTimestamp (End segment) mediaLengthInSeconds\<rparr>"

text \<open>
  The \<open>less\<close> function handed to \<open>sort.Slice\<close>: both start times parsed with the movie
  time format, the parse errors dropped, the instants compared with \<open>Before\<close>.
\<close>

definition parsedStart :: "Env \<Rightarrow> Segment \<Rightarrow> Time" where
  "parsedStart env segment = fst (time_Parse env DefaultMovieTimeFormat (Start segment))"

definition startBefore :: "Env \<Rightarrow> Segment \<Rightarrow> Segment \<Rightarrow> bool" where
  "startBefore env a b = (parsedStart env a < parsedStart env b)"

text \<open>The loop \<open>for i, segment := range segments { segment.SequenceNumber = i }\<close>.\<close>

definition resequence :: "Segment list \<Rightarrow> Segment list" where
  "resequence segments =
     map (\<lambda>(i, segment). segment\<lparr>SequenceNumber := int i\<rparr>) (enumerate 0 segments)"

definition sortAndSequence :: "Env \<Rightarrow> Segment list \<Rightarrow> Segment list" where
  "sortAndSequence env segments = resequence (sort_Slice env (startBefore env) segments)"

definition assembleMedia :: "string \<Rightarrow> MediaSummary \<Rightarrow> go_int \<Rightarrow> Segment list \<Rightarrow> Media" where
  "assembleMedia uuid summary mediaLengthInSeconds segments =
     (let media = NewMedia uuid (MediaSummary.Title summary) in
      media\<lparr>Title := MediaSummary.Title summary,
            Category := MediaSummary.Category summary,
            Summary := MediaSummary.Summary summary,
            MediaUrl := MediaSummary.MediaUrl summary,
            LengthInSeconds := mediaLengthInSeconds,
            Director := MediaSummary.Director summary,
            ReleaseYear := MediaSummary.ReleaseYear summary,
            Genre := MediaSummary.Genre summary,
            Rating := MediaSummary.Rating summary,
            Cast := Media.Cast media @ MediaSummary.Cast summary,
            Segments := Segments media @ segments\<rparr>)"

text \<open>
  \<open>MediaAssembly.Execute\<close>. The three type assertions panic on a value that is missing
  or of another type. A nil pointer among the parsed segments (a JSON \<open>null\<close>) makes the
  repair loop panic, before anything has been written. \<open>uuid\<close> is the identity that
  \<open>NewMedia\<close> generates during this call.
\<close>

definition MediaAssembly_Execute :: "Env \<Rightarrow> MediaAssembly \<Rightarrow> string \<Rightarrow> Context \<Rightarrow> outcome" where
  "MediaAssembly_Execute env m uuid context =
     (case (store context (summaryParam m), store context (segmentParam m),
            store context (mediaLengthParam m)) of
        (Some (SummaryValue summary), Some (StringsValue jsonSegments),
         Some (IntValue mediaLengthInSeconds)) \<Rightarrow>
          (let segmentValues = ''[ '' @ Join jsonSegments '','' @ '' ]'' in
           case json_Unmarshal env segmentValues of
             Inl segmentErr \<Rightarrow>
               Return (AddError (name m) segmentErr
                         (context\<lparr>errorCounter := errorCounter context + 1\<rparr>))
           | Inr parsed \<Rightarrow>
               (let defaultSegment =
                      \<lparr>SequenceNumber = 0, Start = ''00:00:00'',
                       End = formatSeconds mediaLengthInSeconds,
                       Script = MediaSummary.Summary summary\<rparr>;
                    pointers = (if length parsed = 0 then parsed @ [Some defaultSegment] else parsed)
                in case those pointers of
                     None \<Rightarrow> Panic
                   | Some segments \<Rightarrow>
                       (let corrected = map (correctSegment mediaLengthInSeconds) segments;
                            sequenced = sortAndSequence env corrected;
                            media = assembleMedia uuid summary mediaLengthInSeconds sequenced
                        in Return (Add (CtxOut env) (MediaValue media)
                                    (Add (mediaObjectParam m) (MediaValue media)
                                      (context\<lparr>successCounter := successCounter context + 1\<rparr>))))))
      | _ \<Rightarrow> Panic)"

text \<open>
  The contract of \<open>sort.Slice\<close> for a \<open>less\<close> that compares a key: the slice afterwards
  holds the same elements, in ascending order of the key. The order of elements with
  equal keys is not part of the contract (the sort is not guaranteed to be stable).
\<close>

definition sort_Slice_contract :: "Env \<Rightarrow> bool" where
  "sort_Slice_contract env =
     (\<forall>xs. mset (sort_Slice env (startBefore env) xs) = mset xs \<and>
           sorted (map (parsedStart env) (sort_Slice env (startBefore env) xs)))"

text \<open>
  The first steps of \<open>correctTimestamp\<close> on their own: the three components of a
  timestamp, when it has exactly three and \<open>Atoi\<close> accepts each.
\<close>

definition timestampParts :: "string \<Rightarrow> (go_int \<times> go_int \<times> go_int) option" where
  "timestampParts ts =
     (case Split ts of
        [p0, p1, p2] \<Rightarrow>
          (case (Atoi p0, Atoi p1, Atoi p2) of
             (Some h, Some m, Some s) \<Rightarrow> Some (h, m, s)
           | _ \<Rightarrow> None)
      | _ \<Rightarrow> None)"

text \<open>
  The seconds that components \<open>h\<close>, \<open>m\<close>, \<open>s\<close> denote, as an unbounded integer, and
  whether an integer is a value of \<open>int\<close>.
\<close>

definition hmsSeconds :: "go_int \<Rightarrow> go_int \<Rightarrow> go_int \<Rightarrow> int" where
  "hmsSeconds h m s = sint h * 3600 + sint m * 60 + sint s"

definition fitsInt :: "int \<Rightarrow> bool" where
  "fitsInt k = (- (2 ^ 63) \<le> k \<and> k < 2 ^ 63)"

section \<open>The extraction stage: \<open>SegmentExtractor\<close>\<close>

record SegmentExtractor =
  name :: string
  inputParam :: string
  outputParam :: string
  numberOfWorkers :: int
  contentTypeParamName :: string

text \<open>
  \<open>CreateJob\<close>: the prompt is rendered from the template; a rendering error gives a job
  that carries the error and nothing else. The tracing span and the token counters of
  a job are telemetry and are left out.
\<close>

definition CreateJob ::
  "Env \<Rightarrow> nat \<Rightarrow> string \<Rightarrow> MediaSummary \<Rightarrow> GCSObject \<Rightarrow> TimeSpan \<Rightarrow> SegmentJob" where
  "CreateJob env i mediaType summary videoFile ts =
     (case template_Execute env mediaType i summary videoFile ts of
        Inl e \<Rightarrow> \<lparr>workerId = 0, timeSpan = None, contents = [], err = Some e\<rparr>
      | Inr tsPrompt \<Rightarrow>
          \<lparr>workerId = i, timeSpan = Some ts, contents = tsPrompt, err = None\<rparr>)"

text \<open>
  One turn of the loop of \<open>segmentWorker\<close>, on the job \<open>j\<close> it received: the responses
  it sends on the results channel, and whether the worker returns (\<open>True\<close>) or goes on
  to receive the next job (\<open>False\<close>).
\<close>

definition segmentWorker_body :: "Env \<Rightarrow> SegmentJob \<Rightarrow> SegmentResponse list \<times> bool" where
  "segmentWorker_body env j =
     (case SegmentJob.err j of
        None \<Rightarrow>
          (case GenerateMultiModalResponse env j of
             Inl e \<Rightarrow> ([\<lparr>val = [], err = Some e\<rparr>], True)
           | Inr out \<Rightarrow>
               (if length (Trim out) > 0 \<and> out \<noteq> ''{}'' then [\<lparr>val = out, err = None\<rparr>] else [],
                False))
      | Some e \<Rightarrow> ([\<lparr>val = [], err = Some e\<rparr>], False))"

text \<open>
  The worker pool. The jobs channel has room for every job, so the sends of \<open>Execute\<close>
  never block and the pool is the one that starts with every job queued and the
  channel closed; the results channel has room for every response. A worker goroutine
  is about to receive from the jobs channel, or is processing the job it received, or
  has returned (\<open>wg.Done\<close>).
\<close>

datatype worker = Receiving | Processing SegmentJob | Done

record pool =
  jobs :: "SegmentJob list"
  results :: "SegmentResponse list"
  workers :: "worker list"

text \<open>
  The next step of the worker goroutine \<open>w\<close>: receive the job at the head of the
  channel, or return when the closed channel is drained; finish the job in hand.
\<close>

definition worker_step :: "Env \<Rightarrow> nat \<Rightarrow> pool \<Rightarrow> pool" where
  "worker_step env w p =
     (if w < length (workers p) then
        (case workers p ! w of
           Done \<Rightarrow> p
         | Receiving \<Rightarrow>
             (case jobs p of
                [] \<Rightarrow> p\<lparr>workers := (workers p)[w := Done]\<rparr>
              | j # js \<Rightarrow> p\<lparr>jobs := js, workers := (workers p)[w := Processing j]\<rparr>)
         | Processing j \<Rightarrow>
             (case segmentWorker_body env j of
                (responses, returned) \<Rightarrow>
                  p\<lparr>results := results p @ responses,
                    workers := (workers p)[w := (if returned then Done else Receiving)]\<rparr>))
      else p)"

text \<open>
  A schedule is the order in which the worker goroutines take their steps. Every
  interleaving of the workers is the run of some schedule.
\<close>

definition run_workers :: "Env \<Rightarrow> nat list \<Rightarrow> pool \<Rightarrow> pool" where
  "run_workers env schedule p = foldl (\<lambda>q w. worker_step env w q) p schedule"

definition start_pool :: "nat \<Rightarrow> SegmentJob list \<Rightarrow> pool" where
  "start_pool numWorkers js = \<lparr>jobs = js, results = [], workers = replicate numWorkers Receiving\<rparr>"

text \<open>\<open>wg.Wait()\<close> returns once every worker has returned.\<close>

definition all_done :: "pool \<Rightarrow> bool" where
  "all_done p = list_all (\<lambda>w. w = Done) (workers p)"

text \<open>The loop over the results channel that aggregates the responses.\<close>

fun aggregate :: "string \<Rightarrow> SegmentResponse list \<Rightarrow> Context \<times> string list \<Rightarrow> Context \<times> string list" where
  "aggregate cmdName [] acc = acc"
| "aggregate cmdName (r # rs) (context, segmentData) =
     (case SegmentResponse.err r of
        Some e \<Rightarrow>
          aggregate cmdName rs
            (AddError cmdName e (context\<lparr>errorCounter := errorCounter context + 1\<rparr>), segmentData)
      | None \<Rightarrow> aggregate cmdName rs (context, segmentData @ [val r]))"

definition extractionJobs :: "Env \<Rightarrow> string \<Rightarrow> MediaSummary \<Rightarrow> GCSObject \<Rightarrow> SegmentJob list" where
  "extractionJobs env mediaType summary gcsFile =
     map (\<lambda>(i, ts). CreateJob env i mediaType summary gcsFile ts)
       (enumerate 0 (SegmentTimeStamps summary))"

text \<open>
  \<open>SegmentExtractor.Execute\<close> under a schedule of its workers. \<open>None\<close>: the schedule
  ends before \<open>wg.Wait()\<close> returns, so it is not a complete run.
\<close>

definition SegmentExtractor_Execute ::
  "Env \<Rightarrow> SegmentExtractor \<Rightarrow> nat list \<Rightarrow> Context \<Rightarrow> outcome option" where
  "SegmentExtractor_Execute env s schedule context =
     (case (store context (inputParam s), store context (GCSObjectName env),
            store context (contentTypeParamName s)) of
        (Some (SummaryValue summary), Some (GCSValue gcsFile), Some (StringValue mediaType)) \<Rightarrow>
          (let p = run_workers env schedule
                     (start_pool (nat (numberOfWorkers s))
                        (extractionJobs env mediaType summary gcsFile))
           in if \<not> all_done p then None
              else
                (case aggregate (name s) (results p) (context, []) of
                   (aggregated, segmentData) \<Rightarrow>
                     (let counted =
                            (if \<not> HasErrors aggregated
                             then aggregated\<lparr>successCounter := successCounter aggregated + 1\<rparr>
                             else aggregated)
                      in Some (Return (Add (CtxOut env) (StringsValue segmentData)
                                        (Add (outputParam s) (StringsValue segmentData) counted))))))
      | _ \<Rightarrow> Some Panic)"

text \<open>
  The jobs a pool gets to: \<open>processed env c js\<close> is the part of the queue \<open>js\<close> that
  \<open>c\<close> workers process before the last of them has returned on an inference
  failure, and \<open>unprocessed env c js\<close> is the rest, which stays in the channel.
\<close>

fun processed :: "Env \<Rightarrow> nat \<Rightarrow> SegmentJob list \<Rightarrow> SegmentJob list" where
  "processed env 0 js = []"
| "processed env (Suc c) [] = []"
| "processed env (Suc c) (j # js) =
     j # (if snd (segmentWorker_body env j) then processed env c js
          else processed env (Suc c) js)"

fun unprocessed :: "Env \<Rightarrow> nat \<Rightarrow> SegmentJob list \<Rightarrow> SegmentJob list" where
  "unprocessed env 0 js = js"
| "unprocessed env (Suc c) [] = []"
| "unprocessed env (Suc c) (j # js) =
     (if snd (segmentWorker_body env j) then unprocessed env c js
      else unprocessed env (Suc c) js)"

text \<open>
  The payloads the success list is to hold for the jobs \<open>js\<close>: of every job whose
  inference call succeeds, the payload, unless it is empty once its spaces are trimmed
  or is the empty-object marker. And the errors of the jobs: the rendering error of a
  job that carries one, the error of a failed inference call.
\<close>

definition droppedPayload :: "string \<Rightarrow> bool" where
  "droppedPayload out = (Trim out = [] \<or> out = ''{}'')"

text \<open>
  The outcomes of a job that matter to the count of responses: its inference call is
  made and fails; its inference call succeeds with a payload that is dropped.
\<close>

definition inferenceFails :: "Env \<Rightarrow> SegmentJob \<Rightarrow> bool" where
  "inferenceFails env j =
     (case (SegmentJob.err j, GenerateMultiModalResponse env j) of
        (None, Inl e) \<Rightarrow> True
      | _ \<Rightarrow> False)"

definition emptySuccess :: "Env \<Rightarrow> SegmentJob \<Rightarrow> bool" where
  "emptySuccess env j =
     (case (SegmentJob.err j, GenerateMultiModalResponse env j) of
        (None, Inr out) \<Rightarrow> droppedPayload out
      | _ \<Rightarrow> False)"

fun successPayloads :: "Env \<Rightarrow> SegmentJob list \<Rightarrow> string list" where
  "successPayloads env [] = []"
| "successPayloads env (j # js) =
     (case (SegmentJob.err j, GenerateMultiModalResponse env j) of
        (None, Inr out) \<Rightarrow> (if droppedPayload out then [] else [out]) @ successPayloads env js
      | _ \<Rightarrow> successPayloads env js)"

fun jobErrors :: "Env \<Rightarrow> SegmentJob list \<Rightarrow> error list" where
  "jobErrors env [] = []"
| "jobErrors env (j # js) =
     (case SegmentJob.err j of
        Some e \<Rightarrow> e # jobErrors env js
      | None \<Rightarrow>
          (case GenerateMultiModalResponse env j of
             Inl e \<Rightarrow> e # jobErrors env js
           | Inr out \<Rightarrow> jobErrors env js))"

text \<open>
  The responses that are sent for the jobs \<open>js\<close>, one job after the other. For a worker:
  whether it will come to receive again (1) or not (0), and the responses that the job
  in its hand is going to send.
\<close>

definition sent :: "Env \<Rightarrow> SegmentJob list \<Rightarrow> SegmentResponse list" where
  "sent env js = concat (map (\<lambda>j. fst (segmentWorker_body env j)) js)"

definition capacity :: "Env \<Rightarrow> worker \<Rightarrow> nat" where
  "capacity env w =
     (case w of
        Receiving \<Rightarrow> 1
      | Processing j \<Rightarrow> (if snd (segmentWorker_body env j) then 0 else 1)
      | Done \<Rightarrow> 0)"

definition in_hand :: "Env \<Rightarrow> worker \<Rightarrow> SegmentResponse multiset" where
  "in_hand env w =
     (case w of
        Processing j \<Rightarrow> mset (fst (segmentWorker_body env j))
      | _ \<Rightarrow> {#})"

definition pool_capacity :: "Env \<Rightarrow> pool \<Rightarrow> nat" where
  "pool_capacity env p = sum_list (map (capacity env) (workers p))"

definition pool_in_hand :: "Env \<Rightarrow> pool \<Rightarrow> SegmentResponse multiset" where
  "pool_in_hand env p = sum_list (map (in_hand env) (workers p))"

text \<open>
  A bound on the steps that the workers of a pool can still take: two for a worker
  that is about to receive, three for one that is processing a job, and two for every
  job in the channel.
\<close>

definition steps_left :: "worker \<Rightarrow> nat" where
  "steps_left w = (case w of Receiving \<Rightarrow> 2 | Processing j \<Rightarrow> 3 | Done \<Rightarrow> 0)"

definition pool_steps_left :: "pool \<Rightarrow> nat" where
  "pool_steps_left p = 2 * length (jobs p) + sum_list (map steps_left (workers p))"


section \<open>Instances of the parameters\<close>

text \<open>
  An insertion sort, which meets the contract of \<open>sort.Slice\<close> and keeps elements with
  equal keys in their order; run on the reversed slice it meets the contract as well
  and reverses them.
\<close>

fun insert_by :: "('a \<Rightarrow> 'a \<Rightarrow> bool) \<Rightarrow> 'a \<Rightarrow> 'a list \<Rightarrow> 'a list" where
  "insert_by lt x [] = [x]"
| "insert_by lt x (y # ys) = (if lt y x then y # insert_by lt x ys else x # y # ys)"

definition insertion_sort :: "('a \<Rightarrow> 'a \<Rightarrow> bool) \<Rightarrow> 'a list \<Rightarrow> 'a list" where
  "insertion_sort lt xs = foldr (insert_by lt) xs []"

definition reversing_sort :: "('a \<Rightarrow> 'a \<Rightarrow> bool) \<Rightarrow> 'a list \<Rightarrow> 'a list" where
  "reversing_sort lt xs = insertion_sort lt (rev xs)"

text \<open>
  A stand-in for \<open>time.Parse\<close> on the clock values of the examples: the seconds since
  \<open>00:00:00\<close>; a value that is not of the form \<open>H:M:S\<close> is an error.
\<close>

definition clock_Parse :: "string \<Rightarrow> string \<Rightarrow> Time \<times> error option" where
  "clock_Parse layout v =
     (case timestampParts v of
        Some (h, m, s) \<Rightarrow> (hmsSeconds h m s, None)
      | None \<Rightarrow> (0, Some (Error ''cannot parse'')))"

definition exampleEnv ::
  "(error + Segment option list) \<Rightarrow>
   ((Segment \<Rightarrow> Segment \<Rightarrow> bool) \<Rightarrow> Segment list \<Rightarrow> Segment list) \<Rightarrow>
   (SegmentJob \<Rightarrow> error + string) \<Rightarrow> Env" where
  "exampleEnv parsed srt infer =
     \<lparr>CtxOut = ''out'', GCSObjectName = ''gcs_object'',
      json_Unmarshal = (\<lambda>doc. parsed), time_Parse = clock_Parse, sort_Slice = srt,
      template_Execute = (\<lambda>mediaType i summary videoFile ts. Inr ''prompt''),
      GenerateMultiModalResponse = infer\<rparr>"

text \<open>
  The scenario of the specification: a summary of a media of 120 seconds with two time
  windows; the inference call fails for the first window and answers \<open>B\<close> for the second.
\<close>

definition exampleSummary :: MediaSummary where
  "exampleSummary =
     \<lparr>MediaSummary.Title = ''Title'', MediaSummary.Category = ''Category'',
      MediaSummary.Summary = ''A summary'', MediaSummary.MediaUrl = ''url'',
      MediaSummary.Director = ''Director'', MediaSummary.ReleaseYear = 2024,
      MediaSummary.Genre = ''Genre'', MediaSummary.Rating = ''G'',
      MediaSummary.Cast = [],
      SegmentTimeStamps =
        [\<lparr>spanStart = ''00:00:00'', spanEnd = ''00:01:00''\<rparr>,
         \<lparr>spanStart = ''00:01:00'', spanEnd = ''00:02:00''\<rparr>]\<rparr>"

definition exampleAssembly :: MediaAssembly where
  "exampleAssembly =
     \<lparr>MediaAssembly.name = ''assembly'', summaryParam = ''summary'', segmentParam = ''segments'',
      mediaObjectParam = ''media'', mediaLengthParam = ''length''\<rparr>"

definition exampleExtractor :: SegmentExtractor where
  "exampleExtractor =
     \<lparr>name = ''extractor'', inputParam = ''summary'', outputParam = ''segments'',
      numberOfWorkers = 1, contentTypeParamName = ''content_type''\<rparr>"

definition exampleContext :: "string list \<Rightarrow> go_int \<Rightarrow> Context" where
  "exampleContext payloads mediaLength =
     \<lparr>store = [''summary'' \<mapsto> SummaryValue exampleSummary,
               ''segments'' \<mapsto> StringsValue payloads,
               ''length'' \<mapsto> IntValue mediaLength,
               ''gcs_object'' \<mapsto> GCSValue \<lparr>Bucket = ''bucket'', Name = ''film.mp4'', MIMEType = ''video/mp4''\<rparr>,
               ''content_type'' \<mapsto> StringValue ''movie''],
      errs = [], errorCounter = 0, successCounter = 0\<rparr>"

definition segmentA :: Segment where
  "segmentA = \<lparr>SequenceNumber = 7, Start = ''00:00:00'', End = ''00:01:00'', Script = ''A''\<rparr>"

definition segmentB :: Segment where
  "segmentB = \<lparr>SequenceNumber = 5, Start = ''00:01:00'', End = ''00:02:00'', Script = ''B''\<rparr>"

definition failingFirst :: "SegmentJob \<Rightarrow> error + string" where
  "failingFirst j = (if workerId j = 0 then Inl (Error ''inference failed'') else Inr ''B'')"

definition job0 :: SegmentJob where
  "job0 = \<lparr>workerId = 0, timeSpan = Some \<lparr>spanStart = ''00:00:00'', spanEnd = ''00:01:00''\<rparr>,
            contents = ''prompt'', err = None\<rparr>"

definition job1 :: SegmentJob where
  "job1 = \<lparr>workerId = 1, timeSpan = Some \<lparr>spanStart = ''00:01:00'', spanEnd = ''00:02:00''\<rparr>,
            contents = ''prompt'', err = None\<rparr>"

text \<open>
  Environments for the assembly stage: \<open>json.Unmarshal\<close> answers with the given result,
  and the sort is the insertion sort or, in \<open>unstableEnv\<close>, the sort that reverses ties.
\<close>

definition assemblyEnv :: "error + Segment option list \<Rightarrow> Env" where
  "assemblyEnv parsed = exampleEnv parsed insertion_sort failingFirst"

definition unstableEnv :: Env where
  "unstableEnv = exampleEnv (Inr []) reversing_sort failingFirst"

definition tiedSegments :: "Segment list" where
  "tiedSegments =
     [\<lparr>SequenceNumber = 0, Start = ''00:01:00'', End = ''00:02:00'', Script = ''first''\<rparr>,
      \<lparr>SequenceNumber = 1, Start = ''00:01:00'', End = ''00:03:00'', Script = ''second''\<rparr>]"

definition oddSegment :: Segment where
  "oddSegment =
     \<lparr>SequenceNumber = 0, Start = ''bad:value:x'', End = ''00:00:-5'', Script = ''odd''\<rparr>"

text \<open>The environment of the extraction stage in the scenario.\<close>

definition dispatchEnv :: Env where
  "dispatchEnv = exampleEnv (Inr []) insertion_sort failingFirst"

text \<open>
  An environment in which the inference call answers the empty-object marker for the
  first window and \<open>B\<close> for the second.
\<close>

definition emptyFirst :: "SegmentJob \<Rightarrow> error + string" where
  "emptyFirst j = (if workerId j = 0 then Inr ''{}'' else Inr ''B'')"

definition emptyFirstEnv :: Env where
  "emptyFirstEnv = exampleEnv (Inr []) insertion_sort emptyFirst"


section \<open>Lemmas on the Go primitives\<close>

lemma lt10_cases: "d < 10 \<Longrightarrow> d \<in> {0, 1, 2, 3, 4, 5, 6, 7, 8, 9::nat}"
  by auto

lemma digit_value_digit_char: "d < 10 \<Longrightarrow> digit_value (digit_char d) = d"
  by (drule lt10_cases) (auto simp: digit_value_def digit_char_def)

lemma is_digit_digit_char: "d < 10 \<Longrightarrow> is_digit (digit_char d)"
  by (drule lt10_cases) (auto simp: is_digit_def digit_char_def)

lemma decimal_snoc: "decimal (ds @ [c]) = decimal ds * 10 + digit_value c"
  by (simp add: decimal_def)

lemma decimal_decimal_digits: "decimal (decimal_digits n) = n"
proof (induction n rule: decimal_digits.induct)
  case (1 n)
  show ?case
  proof (cases "n < 10")
    case True
    then show ?thesis
      by (simp add: decimal_digits.simps [of n] decimal_def digit_value_digit_char)
  next
    case False
    with 1 have "decimal (decimal_digits (n div 10)) = n div 10" by simp
    with False show ?thesis
      by (simp add: decimal_digits.simps [of n] decimal_snoc digit_value_digit_char)
  qed
qed

lemma digits_decimal_digits: "list_all is_digit (decimal_digits n)"
proof (induction n rule: decimal_digits.induct)
  case (1 n)
  then show ?case
    by (cases "n < 10") (simp_all add: decimal_digits.simps [of n] is_digit_digit_char)
qed

lemma decimal_digits_not_Nil: "decimal_digits n \<noteq> []"
  by (simp add: decimal_digits.simps [of n])

lemma is_digit_zero: "is_digit (CHR ''0'')"
  by (simp add: is_digit_def)

lemma decimal_replicate_zero: "decimal (replicate k (CHR ''0'') @ ds) = decimal ds"
proof (induction k)
  case 0
  show ?case by simp
next
  case (Suc k)
  have "foldl (\<lambda>n c. n * 10 + digit_value c) 0 (CHR ''0'' # replicate k (CHR ''0'') @ ds)
      = foldl (\<lambda>n c. n * 10 + digit_value c) 0 (replicate k (CHR ''0'') @ ds)"
    by (simp add: digit_value_def)
  with Suc show ?case by (simp add: decimal_def)
qed

lemma decimal_zero_pad: "decimal (zero_pad k (decimal_digits n)) = n"
  by (simp add: zero_pad_def decimal_replicate_zero decimal_decimal_digits)

lemma digits_zero_pad: "list_all is_digit (zero_pad k (decimal_digits n))"
  using digits_decimal_digits [of n] by (auto simp: zero_pad_def list_all_iff is_digit_zero)

lemma zero_pad_not_Nil: "zero_pad k (decimal_digits n) \<noteq> []"
  by (simp add: zero_pad_def decimal_digits_not_Nil)

lemma is_digit_not_sign: "is_digit c \<Longrightarrow> c \<noteq> CHR ''-'' \<and> c \<noteq> CHR ''+'' \<and> c \<noteq> CHR '':''"
  by (auto simp: is_digit_def)

lemma Atoi_digits:
  assumes "ds \<noteq> []" "list_all is_digit ds" "decimal ds < 2 ^ 63"
  shows "Atoi ds = Some (word_of_nat (decimal ds))"
proof -
  from assms(1,2) have "is_digit (hd ds)" by (cases ds) simp_all
  then have "hd ds \<noteq> CHR ''-''" "hd ds \<noteq> CHR ''+''"
    using is_digit_not_sign by blast+
  with assms show ?thesis by (simp add: Atoi_def)
qed

lemma Atoi_minus_digits:
  assumes "ds \<noteq> []" "list_all is_digit ds" "decimal ds \<le> 2 ^ 63"
  shows "Atoi (CHR ''-'' # ds) = Some (- word_of_nat (decimal ds))"
  using assms by (simp add: Atoi_def)

lemma Atoi_Sprintf_02d: "Atoi (Sprintf_02d v) = Some v"
proof (cases "sint v < 0")
  case True
  let ?n = "nat (- sint v)"
  have "- (2 ^ 63) \<le> sint v" using sint_ge [of v] by simp
  with True have bound: "?n \<le> 2 ^ 63" by simp
  have "Atoi (CHR ''-'' # zero_pad 1 (decimal_digits ?n)) = Some (- word_of_nat ?n)"
    using Atoi_minus_digits [OF zero_pad_not_Nil digits_zero_pad, of 1 ?n] bound
    by (simp add: decimal_zero_pad)
  moreover have "- word_of_nat ?n = v"
  proof -
    have "(word_of_nat ?n :: go_int) = word_of_int (- sint v)"
      using True by (simp add: word_of_int_nat [symmetric] del: of_int_minus)
    then show ?thesis by simp
  qed
  ultimately show ?thesis using True by (simp add: Sprintf_02d_def)
next
  case False
  let ?n = "nat (sint v)"
  have "sint v < 2 ^ 63" using sint_lt [of v] by simp
  with False have bound: "?n < 2 ^ 63" by simp
  have "Atoi (zero_pad 2 (decimal_digits ?n)) = Some (word_of_nat ?n)"
    using Atoi_digits [OF zero_pad_not_Nil digits_zero_pad, of 2 ?n] bound
    by (simp add: decimal_zero_pad)
  moreover have "(word_of_nat ?n :: go_int) = v"
    using False by simp
  ultimately show ?thesis using False by (simp add: Sprintf_02d_def)
qed

lemma Sprintf_02d_no_colon: "CHR '':'' \<notin> set (Sprintf_02d v)"
proof -
  have "CHR '':'' \<notin> set (zero_pad k (decimal_digits n))" for k n
    using digits_zero_pad [of k n] is_digit_not_sign by (auto simp: list_all_iff)
  then show ?thesis by (simp add: Sprintf_02d_def)
qed

lemma Split_no_colon: "CHR '':'' \<notin> set a \<Longrightarrow> Split a = [a]"
  by (induction a) auto

lemma Split_append_colon:
  "CHR '':'' \<notin> set a \<Longrightarrow> Split (a @ CHR '':'' # rest) = a # Split rest"
  by (induction a) auto

lemma Split_three:
  assumes "CHR '':'' \<notin> set a" "CHR '':'' \<notin> set b" "CHR '':'' \<notin> set c"
  shows "Split (a @ '':'' @ b @ '':'' @ c) = [a, b, c]"
  using assms by (simp add: Split_append_colon Split_no_colon)

lemma smod_smod_60: "((t::int) smod 3600) smod 60 = t smod 60"
proof -
  have m: "(n mod 3600) mod 60 = n mod 60" for n :: int
    by (rule mod_mod_cancel) simp
  consider "t < 0" | "t = 0" | "0 < t" by linarith
  then show ?thesis
  proof cases
    case 1
    have nn: "0 \<le> (- t) mod 3600" by simp
    show ?thesis
    proof (cases "(- t) mod 3600 = 0")
      case True
      then have "(- t) mod 60 = 0" using m [of "- t"] by simp
      with 1 True show ?thesis by (simp add: signed_modulo_int_def)
    next
      case False
      with nn have "0 < (- t) mod 3600" by linarith
      with 1 show ?thesis using m [of "- t"] by (simp add: signed_modulo_int_def)
    qed
  next
    case 2
    then show ?thesis by simp
  next
    case 3
    have nn: "0 \<le> t mod 3600" by simp
    show ?thesis
    proof (cases "t mod 3600 = 0")
      case True
      then have "t mod 60 = 0" using m [of t] by simp
      with 3 True show ?thesis by (simp add: signed_modulo_int_def)
    next
      case False
      with nn have "0 < t mod 3600" by linarith
      with 3 show ?thesis using m [of t] by (simp add: signed_modulo_int_def)
    qed
  qed
qed

lemma int_hms_decompose:
  "(t::int) sdiv 3600 * 3600 + (t smod 3600) sdiv 60 * 60 + t smod 60 = t"
proof -
  have a: "t sdiv 3600 * 3600 + t smod 3600 = t"
    by (rule sdiv_mult_smod_eq)
  have b: "(t smod 3600) sdiv 60 * 60 + (t smod 3600) smod 60 = t smod 3600"
    by (rule sdiv_mult_smod_eq)
  from a b smod_smod_60 [of t] show ?thesis by simp
qed

lemma sint_word_of_int_64:
  "- (2 ^ 63) \<le> k \<Longrightarrow> k < 2 ^ 63 \<Longrightarrow> sint (word_of_int k :: go_int) = k"
  by (simp add: sint_sbintrunc' signed_take_bit_int_eq_self)

lemma smod_3600_bounds: "- 3600 < (t::int) smod 3600 \<and> t smod 3600 < 3600"
proof -
  have "0 \<le> \<bar>t\<bar> mod 3600" "\<bar>t\<bar> mod 3600 < 3600" by simp_all
  then show ?thesis by (auto simp: signed_modulo_int_def sgn_if)
qed

lemma sint_go_rem_3600: "sint (go_rem t 3600) = sint t smod 3600"
proof -
  have "sint (word_of_int (sint t smod 3600) :: go_int) = sint t smod 3600"
    using smod_3600_bounds [of "sint t"] by (intro sint_word_of_int_64) simp_all
  then show ?thesis by (simp add: go_rem_def)
qed

lemma hms_decompose:
  "go_quot t 3600 * 3600 + go_quot (go_rem t 3600) 60 * 60 + go_rem t 60 = t"
proof -
  let ?T = "sint t"
  have "go_quot t 3600 * 3600 + go_quot (go_rem t 3600) 60 * 60 + go_rem t 60
      = (word_of_int (?T sdiv 3600 * 3600 + (?T smod 3600) sdiv 60 * 60 + ?T smod 60) :: go_int)"
    by (simp add: go_quot_def sint_go_rem_3600) (simp add: go_rem_def)
  also have "\<dots> = word_of_int ?T" by (simp only: int_hms_decompose)
  finally show ?thesis by simp
qed

lemma Split_formatSeconds:
  "Split (formatSeconds t) =
     [Sprintf_02d (go_quot t 3600), Sprintf_02d (go_quot (go_rem t 3600) 60),
      Sprintf_02d (go_rem t 60)]"
  unfolding formatSeconds_def Let_def
  by (rule Split_three) (rule Sprintf_02d_no_colon)+

lemma correctTimestamp_formatSeconds: "correctTimestamp (formatSeconds t) t = formatSeconds t"
  by (simp add: correctTimestamp_def Split_formatSeconds Atoi_Sprintf_02d hms_decompose)

lemma Atoi_00: "Atoi ''00'' = Some 0"
  by (simp add: Atoi_def is_digit_def decimal_def digit_value_def)

lemma Split_shifted:
  "Split (''00:'' @ Sprintf_02d h @ '':'' @ Sprintf_02d m) = [''00'', Sprintf_02d h, Sprintf_02d m]"
proof -
  have "Split (''00'' @ '':'' @ Sprintf_02d h @ '':'' @ Sprintf_02d m)
      = [''00'', Sprintf_02d h, Sprintf_02d m]"
    by (rule Split_three) (simp_all add: Sprintf_02d_no_colon)
  then show ?thesis by simp
qed

lemma correctTimestamp_shifted:
  "sint (h * 60 + m) \<le> sint t \<Longrightarrow>
   correctTimestamp (''00:'' @ Sprintf_02d h @ '':'' @ Sprintf_02d m) t
     = ''00:'' @ Sprintf_02d h @ '':'' @ Sprintf_02d m"
  unfolding correctTimestamp_def Split_shifted
  by (simp add: Atoi_00 Atoi_Sprintf_02d)

lemma correctTimestamp_parts:
  "correctTimestamp ts t =
     (case timestampParts ts of
        None \<Rightarrow> ts
      | Some (h, m, s) \<Rightarrow>
          if sint (h * 3600 + m * 60 + s) \<le> sint t then ts
          else if sint (h * 60 + m) \<le> sint t
               then ''00:'' @ Sprintf_02d h @ '':'' @ Sprintf_02d m
               else formatSeconds t)"
  by (simp add: correctTimestamp_def timestampParts_def Let_def split: list.split option.split)

lemma sint_hms_sum:
  assumes "fitsInt (hmsSeconds h m s)"
  shows "sint (h * 3600 + m * 60 + s) = hmsSeconds h m s"
proof -
  have eq: "h * 3600 + m * 60 + s = (word_of_int (hmsSeconds h m s) :: go_int)"
    by (simp add: hmsSeconds_def)
  have "sint (word_of_int (hmsSeconds h m s) :: go_int) = hmsSeconds h m s"
    using assms by (intro sint_word_of_int_64) (simp_all add: fitsInt_def)
  then show ?thesis unfolding eq [symmetric] .
qed

lemma shifted_fits:
  assumes "fitsInt (hmsSeconds h m s)"
  shows "fitsInt (sint h * 60 + sint m)"
proof -
  have "- (2 ^ 63) \<le> sint s" "sint s < 2 ^ 63"
    using sint_ge [of s] sint_lt [of s] by simp_all
  with assms show ?thesis
    unfolding fitsInt_def hmsSeconds_def by simp
qed

lemma sint_shifted_sum:
  assumes "fitsInt (hmsSeconds h m s)"
  shows "sint (h * 60 + m) = sint h * 60 + sint m"
proof -
  from assms have fits: "fitsInt (sint h * 60 + sint m)" by (rule shifted_fits)
  have eq: "h * 60 + m = (word_of_int (sint h * 60 + sint m) :: go_int)"
    by simp
  have "sint (word_of_int (sint h * 60 + sint m) :: go_int) = sint h * 60 + sint m"
    using fits by (intro sint_word_of_int_64) (simp_all add: fitsInt_def)
  then show ?thesis unfolding eq [symmetric] .
qed

text \<open>The definitions that a concrete timestamp is evaluated with.\<close>

lemmas eval_defs = correctTimestamp_def timestampParts_def Atoi_def Let_def is_digit_def
  decimal_def digit_value_def Sprintf_02d_def zero_pad_def decimal_digits.simps digit_char_def
  formatSeconds_def go_quot_def go_rem_def hmsSeconds_def fitsInt_def
  signed_divide_int_def signed_modulo_int_def

section \<open>Timestamp repair\<close>

text \<open>
  Claim C1, as amended. For every timestamp string and every media length: when the
  string splits on \<open>:\<close> into exactly three components that \<open>Atoi\<close> parses as the
  ints \<open>h\<close>, \<open>m\<close>, \<open>s\<close>, and \<open>h*3600 + m*60 + s\<close> is within the range of \<open>int\<close>, then
  \<open>correctTimestamp\<close> returns the string unchanged if \<open>h*3600 + m*60 + s\<close> is at most
  the length; otherwise \<open>00:h:m\<close> (each printed with \<open>%02d\<close>) if \<open>h*60 + m\<close> is at
  most the length; otherwise the length formatted as \<open>HH:MM:SS\<close>. When the string does
  not have exactly three components, or \<open>Atoi\<close> rejects one of them (not a decimal
  integer, or outside the range of \<open>int\<close>), it is returned unchanged.
\<close>

theorem C1_correctTimestamp_cases:
  "(timestampParts ts = Some (h, m, s) \<and> fitsInt (hmsSeconds h m s) \<longrightarrow>
      correctTimestamp ts t =
        (if hmsSeconds h m s \<le> sint t then ts
         else if sint h * 60 + sint m \<le> sint t
              then ''00:'' @ Sprintf_02d h @ '':'' @ Sprintf_02d m
              else formatSeconds t))
   \<and> (timestampParts ts = None \<longrightarrow> correctTimestamp ts t = ts)"
proof (intro conjI impI)
  assume "timestampParts ts = Some (h, m, s) \<and> fitsInt (hmsSeconds h m s)"
  then have parts: "timestampParts ts = Some (h, m, s)" and fits: "fitsInt (hmsSeconds h m s)"
    by simp_all
  from parts have "correctTimestamp ts t =
        (if sint (h * 3600 + m * 60 + s) \<le> sint t then ts
         else if sint (h * 60 + m) \<le> sint t
              then ''00:'' @ Sprintf_02d h @ '':'' @ Sprintf_02d m
              else formatSeconds t)"
    by (simp add: correctTimestamp_parts)
  then show "correctTimestamp ts t =
        (if hmsSeconds h m s \<le> sint t then ts
         else if sint h * 60 + sint m \<le> sint t
              then ''00:'' @ Sprintf_02d h @ '':'' @ Sprintf_02d m
              else formatSeconds t)"
    unfolding sint_hms_sum [OF fits] sint_shifted_sum [OF fits] .
next
  assume "timestampParts ts = None"
  then show "correctTimestamp ts t = ts" by (simp add: correctTimestamp_parts)
qed

theorem C1_correctTimestamp_cases_witness:
  "timestampParts ''45:30:00'' = Some (45, 30, 0) \<and> fitsInt (hmsSeconds 45 30 0) \<and>
   correctTimestamp ''45:30:00'' 3600 = ''00:45:30'' \<and>
   timestampParts ''bad:value:x'' = None \<and>
   correctTimestamp ''bad:value:x'' 3600 = ''bad:value:x''"
proof -
  have p: "timestampParts ''45:30:00'' = Some (45, 30, 0)"
    by (simp add: eval_defs)
  have f: "fitsInt (hmsSeconds 45 30 0)"
    by (simp add: eval_defs)
  have q: "timestampParts ''bad:value:x'' = None"
    by (simp add: eval_defs)
  have "correctTimestamp ''45:30:00'' 3600 = ''00:45:30''"
    using C1_correctTimestamp_cases [of "''45:30:00''" 45 30 0 3600] p f
    by (simp add: eval_defs)
  moreover have "correctTimestamp ''bad:value:x'' 3600 = ''bad:value:x''"
    using C1_correctTimestamp_cases [of "''bad:value:x''" 0 0 0 3600] q by simp
  ultimately show ?thesis using p f q by simp
qed

text \<open>
  The claim as first stated speaks of integer components without a range. The
  components of \<open>99999999999999999999:00:00\<close> are decimal integers and the first is far
  beyond a length of 3600 seconds, but \<open>Atoi\<close> rejects it as out of range and the string
  comes back unchanged, not clamped to \<open>01:00:00\<close>. And \<open>5124095576030431:00:00\<close> has
  three components that \<open>Atoi\<close> accepts and denotes 18446744073709551600 seconds, but
  the sum computed in \<open>int\<close> wraps around to \<open>-16\<close> and the string comes back unchanged.
\<close>

theorem C1_counterexample:
  "Split ''99999999999999999999:00:00'' = [''99999999999999999999'', ''00'', ''00''] \<and>
   list_all is_digit ''99999999999999999999'' \<and>
   decimal ''99999999999999999999'' = 99999999999999999999 \<and>
   correctTimestamp ''99999999999999999999:00:00'' 3600 = ''99999999999999999999:00:00'' \<and>
   formatSeconds 3600 = ''01:00:00'' \<and>
   timestampParts ''5124095576030431:00:00'' = Some (5124095576030431, 0, 0) \<and>
   hmsSeconds 5124095576030431 0 0 = 18446744073709551600 \<and>
   correctTimestamp ''5124095576030431:00:00'' 3600 = ''5124095576030431:00:00''"
  by (simp add: eval_defs)

text \<open>
  Claim C10. \<open>correctTimestamp\<close> is idempotent: for every timestamp string and every
  media length, repairing the repaired string with the same length changes nothing.
\<close>

theorem C10_correctTimestamp_idempotent:
  "correctTimestamp (correctTimestamp ts t) t = correctTimestamp ts t"
proof (cases "timestampParts ts")
  case None
  then show ?thesis by (simp add: correctTimestamp_parts)
next
  case (Some hms)
  obtain h m s where hms: "hms = (h, m, s)" by (cases hms)
  show ?thesis
  proof (cases "sint (h * 3600 + m * 60 + s) \<le> sint t")
    case True
    with Some hms show ?thesis by (simp add: correctTimestamp_parts)
  next
    case False
    note over = this
    show ?thesis
    proof (cases "sint (h * 60 + m) \<le> sint t")
      case True
      with over Some hms
      have "correctTimestamp ts t = ''00:'' @ Sprintf_02d h @ '':'' @ Sprintf_02d m"
        by (simp add: correctTimestamp_parts)
      with True show ?thesis by (simp only: correctTimestamp_shifted)
    next
      case False
      with over Some hms have "correctTimestamp ts t = formatSeconds t"
        by (simp add: correctTimestamp_parts)
      then show ?thesis by (simp only: correctTimestamp_formatSeconds)
    qed
  qed
qed

theorem C10_correctTimestamp_idempotent_witness:
  "correctTimestamp (correctTimestamp ''45:30:00'' 3600) 3600 = ''00:45:30''"
proof -
  have "correctTimestamp ''45:30:00'' 3600 = ''00:45:30''"
    by (simp add: eval_defs)
  with C10_correctTimestamp_idempotent [of "''45:30:00''" 3600] show ?thesis by simp
qed

section \<open>Lemmas on the assembly stage\<close>

lemma mset_insert_by: "mset (insert_by lt x ys) = add_mset x (mset ys)"
  by (induction ys) simp_all

lemma mset_insertion_sort: "mset (insertion_sort lt xs) = mset xs"
  by (induction xs) (simp_all add: insertion_sort_def mset_insert_by)

lemma set_insert_by: "set (insert_by lt x ys) = insert x (set ys)"
  using mset_insert_by [of lt x ys] by (metis set_mset_add_mset_insert set_mset_mset)

lemma sorted_insert_by_key:
  fixes key :: "'a \<Rightarrow> 'k::linorder"
  assumes "sorted (map key ys)"
  shows "sorted (map key (insert_by (\<lambda>a b. key a < key b) x ys))"
  using assms
proof (induction ys)
  case Nil
  show ?case by simp
next
  case (Cons y ys)
  show ?case
  proof (cases "key y < key x")
    case True
    with Cons show ?thesis by (auto simp: set_insert_by)
  next
    case False
    with Cons.prems show ?thesis by auto
  qed
qed

lemma sorted_insertion_sort_key:
  fixes key :: "'a \<Rightarrow> 'k::linorder"
  shows "sorted (map key (insertion_sort (\<lambda>a b. key a < key b) xs))"
proof (induction xs)
  case Nil
  show ?case by (simp add: insertion_sort_def)
next
  case (Cons x xs)
  then show ?case
    using sorted_insert_by_key [of key "insertion_sort (\<lambda>a b. key a < key b) xs" x]
    by (simp add: insertion_sort_def)
qed

lemma startBefore_key: "startBefore env = (\<lambda>a b. parsedStart env a < parsedStart env b)"
  by (intro ext) (simp add: startBefore_def)

lemma insertion_sort_contract:
  "sort_Slice env = insertion_sort \<Longrightarrow> sort_Slice_contract env"
  by (simp add: sort_Slice_contract_def startBefore_key mset_insertion_sort
      sorted_insertion_sort_key)


lemma length_resequence: "length (resequence segments) = length segments"
  by (simp add: resequence_def)

lemma nth_resequence:
  "i < length segments \<Longrightarrow> resequence segments ! i = (segments ! i)\<lparr>SequenceNumber := int i\<rparr>"
  by (simp add: resequence_def nth_enumerate_eq)



lemma map_Start_resequence: "map Start (resequence segments) = map Start segments"
  by (rule nth_equalityI) (simp_all add: length_resequence nth_resequence)

lemma map_End_resequence: "map End (resequence segments) = map End segments"
  by (rule nth_equalityI) (simp_all add: length_resequence nth_resequence)




lemma sortAndSequence_length:
  assumes "sort_Slice_contract env"
  shows "length (sortAndSequence env segments) = length segments"
proof -
  from assms have "mset (sort_Slice env (startBefore env) segments) = mset segments"
    by (simp add: sort_Slice_contract_def)
  then have "length (sort_Slice env (startBefore env) segments) = length segments"
    by (rule mset_eq_length)
  then show ?thesis by (simp add: sortAndSequence_def length_resequence)
qed



lemma mset_single_list: "mset ys = {#x#} \<Longrightarrow> ys = [x]"
  by (cases ys) auto

lemma sortAndSequence_single:
  assumes "sort_Slice_contract env"
  shows "sortAndSequence env [segment] = [segment\<lparr>SequenceNumber := 0\<rparr>]"
proof -
  from assms have "mset (sort_Slice env (startBefore env) [segment]) = {#segment#}"
    by (simp add: sort_Slice_contract_def)
  then have "sort_Slice env (startBefore env) [segment] = [segment]"
    by (rule mset_single_list)
  then show ?thesis by (simp add: sortAndSequence_def resequence_def)
qed


lemma Segments_assembleMedia [simp]:
  "Segments (assembleMedia uuid summary mediaLength segments) = segments"
  by (simp add: assembleMedia_def NewMedia_def)

lemma LengthInSeconds_assembleMedia [simp]:
  "LengthInSeconds (assembleMedia uuid summary mediaLength segments) = mediaLength"
  by (simp add: assembleMedia_def NewMedia_def)

lemma MediaAssembly_Execute_parse_error:
  assumes "store context (summaryParam m) = Some (SummaryValue summary)"
    and "store context (segmentParam m) = Some (StringsValue jsonSegments)"
    and "store context (mediaLengthParam m) = Some (IntValue mediaLength)"
    and "json_Unmarshal env (''[ '' @ Join jsonSegments '','' @ '' ]'') = Inl e"
  shows "MediaAssembly_Execute env m uuid context =
           Return (context\<lparr>errs := errs context @ [(MediaAssembly.name m, e)],
                           errorCounter := errorCounter context + 1\<rparr>)"
  using assms by (simp add: MediaAssembly_Execute_def AddError_def)

lemma MediaAssembly_Execute_success:
  assumes "store context (summaryParam m) = Some (SummaryValue summary)"
    and "store context (segmentParam m) = Some (StringsValue jsonSegments)"
    and "store context (mediaLengthParam m) = Some (IntValue mediaLength)"
    and "json_Unmarshal env (''[ '' @ Join jsonSegments '','' @ '' ]'') = Inr parsed"
    and "those (if length parsed = 0
                then parsed @ [Some \<lparr>SequenceNumber = 0, Start = ''00:00:00'',
                                      End = formatSeconds mediaLength,
                                      Script = MediaSummary.Summary summary\<rparr>]
                else parsed) = Some segments"
  shows "MediaAssembly_Execute env m uuid context =
           Return (Add (CtxOut env)
                     (MediaValue (assembleMedia uuid summary mediaLength
                        (sortAndSequence env (map (correctSegment mediaLength) segments))))
                     (Add (mediaObjectParam m)
                        (MediaValue (assembleMedia uuid summary mediaLength
                           (sortAndSequence env (map (correctSegment mediaLength) segments))))
                        (context\<lparr>successCounter := successCounter context + 1\<rparr>)))"
  using assms by (simp add: MediaAssembly_Execute_def Let_def)

lemma MediaAssembly_Execute_assembled:
  assumes "MediaAssembly_Execute env m uuid context = Return context'"
    and "errs context' = errs context"
  shows "\<exists>summary jsonSegments mediaLength parsed segments.
           store context (summaryParam m) = Some (SummaryValue summary) \<and>
           store context (segmentParam m) = Some (StringsValue jsonSegments) \<and>
           store context (mediaLengthParam m) = Some (IntValue mediaLength) \<and>
           json_Unmarshal env (''[ '' @ Join jsonSegments '','' @ '' ]'') = Inr parsed \<and>
           those (if length parsed = 0
                  then parsed @ [Some \<lparr>SequenceNumber = 0, Start = ''00:00:00'',
                                        End = formatSeconds mediaLength,
                                        Script = MediaSummary.Summary summary\<rparr>]
                  else parsed) = Some segments \<and>
           context' =
             Add (CtxOut env)
               (MediaValue (assembleMedia uuid summary mediaLength
                  (sortAndSequence env (map (correctSegment mediaLength) segments))))
               (Add (mediaObjectParam m)
                  (MediaValue (assembleMedia uuid summary mediaLength
                     (sortAndSequence env (map (correctSegment mediaLength) segments))))
                  (context\<lparr>successCounter := successCounter context + 1\<rparr>))"
proof -
  obtain summary where s: "store context (summaryParam m) = Some (SummaryValue summary)"
    using assms(1)
    by (auto simp: MediaAssembly_Execute_def split: option.splits ctx_value.splits)
  obtain jsonSegments where j: "store context (segmentParam m) = Some (StringsValue jsonSegments)"
    using assms(1) s
    by (auto simp: MediaAssembly_Execute_def split: option.splits ctx_value.splits)
  obtain mediaLength where l: "store context (mediaLengthParam m) = Some (IntValue mediaLength)"
    using assms(1) s j
    by (auto simp: MediaAssembly_Execute_def split: option.splits ctx_value.splits)
  show ?thesis
  proof (cases "json_Unmarshal env (''[ '' @ Join jsonSegments '','' @ '' ]'')")
    case (Inl e)
    from MediaAssembly_Execute_parse_error [OF s j l Inl, of uuid] assms
    show ?thesis by simp
  next
    case (Inr parsed)
    let ?pointers = "if length parsed = 0
                  then parsed @ [Some \<lparr>SequenceNumber = 0, Start = ''00:00:00'',
                                        End = formatSeconds mediaLength,
                                        Script = MediaSummary.Summary summary\<rparr>]
                  else parsed"
    show ?thesis
    proof (cases "those ?pointers")
      case None
      with s j l Inr have "MediaAssembly_Execute env m uuid context = Panic"
        by (simp add: MediaAssembly_Execute_def Let_def)
      with assms(1) show ?thesis by simp
    next
      case (Some segments)
      from MediaAssembly_Execute_success [OF s j l Inr Some, of uuid] assms(1)
      show ?thesis using s j l Inr Some by auto
    qed
  qed
qed

lemma store_Add_same: "store (Add key v context) key = Some v"
  by (simp add: Add_def)

lemma store_Add_Add: "store (Add key v (Add key' v context)) key' = Some v"
  by (simp add: Add_def)





lemma correctTimestamp_zero:
  "0 \<le> sint t \<Longrightarrow> correctTimestamp ''00:00:00'' t = ''00:00:00''"
proof -
  assume "0 \<le> sint t"
  moreover have "timestampParts ''00:00:00'' = Some (0, 0, 0)"
    by (simp add: timestampParts_def Atoi_00)
  ultimately show ?thesis by (simp add: correctTimestamp_parts)
qed



section \<open>The assembled timeline\<close>


lemmas assembly_eval = assemblyEnv_def unstableEnv_def exampleEnv_def exampleAssembly_def
  exampleContext_def exampleSummary_def segmentA_def segmentB_def tiedSegments_def oddSegment_def
  sortAndSequence_def resequence_def insertion_sort_def reversing_sort_def startBefore_def
  parsedStart_def clock_Parse_def DefaultMovieTimeFormat_def correctSegment_def
  assembleMedia_def NewMedia_def Add_def AddError_def

lemma assemblyEnv_contract: "sort_Slice_contract (assemblyEnv parsed)"
  by (rule insertion_sort_contract) (simp add: assemblyEnv_def exampleEnv_def)




lemma those_length: "those xs = Some ys \<Longrightarrow> length ys = length xs"
  by (induction xs arbitrary: ys) (auto split: option.splits)

text \<open>
  Claim C5, as amended. When the parsed segment list is empty and the media length is
  not negative, the assembly produces exactly one segment: sequence number 0, start
  \<open>00:00:00\<close>, end the length formatted as \<open>HH:MM:SS\<close>, script the summary's text. And
  for every media length, the timeline of a successfully assembled \<open>Media\<close> is never
  empty.
\<close>

theorem C5_fallback_segment:
  assumes "sort_Slice_contract env"
  shows "(store context (summaryParam m) = Some (SummaryValue summary) \<and>
          store context (segmentParam m) = Some (StringsValue jsonSegments) \<and>
          store context (mediaLengthParam m) = Some (IntValue mediaLength) \<and>
          json_Unmarshal env (''[ '' @ Join jsonSegments '','' @ '' ]'') = Inr [] \<and>
          0 \<le> sint mediaLength \<longrightarrow>
            (\<exists>context' media.
               MediaAssembly_Execute env m uuid context = Return context' \<and>
               store context' (CtxOut env) = Some (MediaValue media) \<and>
               store context' (mediaObjectParam m) = Some (MediaValue media) \<and>
               Segments media =
                 [\<lparr>SequenceNumber = 0, Start = ''00:00:00'', End = formatSeconds mediaLength,
                   Script = MediaSummary.Summary summary\<rparr>]))
       \<and> (\<forall>context'. MediaAssembly_Execute env m uuid context = Return context' \<and>
              errs context' = errs context \<longrightarrow>
              (\<exists>media. store context' (CtxOut env) = Some (MediaValue media) \<and>
                        Segments media \<noteq> []))"
proof (intro conjI impI allI)
  assume "store context (summaryParam m) = Some (SummaryValue summary) \<and>
          store context (segmentParam m) = Some (StringsValue jsonSegments) \<and>
          store context (mediaLengthParam m) = Some (IntValue mediaLength) \<and>
          json_Unmarshal env (''[ '' @ Join jsonSegments '','' @ '' ]'') = Inr [] \<and>
          0 \<le> sint mediaLength"
  then have s: "store context (summaryParam m) = Some (SummaryValue summary)"
    and j: "store context (segmentParam m) = Some (StringsValue jsonSegments)"
    and l: "store context (mediaLengthParam m) = Some (IntValue mediaLength)"
    and p: "json_Unmarshal env (''[ '' @ Join jsonSegments '','' @ '' ]'') = Inr []"
    and nonneg: "0 \<le> sint mediaLength"
    by simp_all
  let ?default = "\<lparr>SequenceNumber = 0, Start = ''00:00:00'', End = formatSeconds mediaLength,
                   Script = MediaSummary.Summary summary\<rparr>"
  have t: "those (if length ([] :: Segment option list) = 0 then [] @ [Some ?default] else [])
             = Some [?default]"
    by simp
  have fixed: "correctSegment mediaLength ?default = ?default"
    using nonneg
    by (simp add: correctSegment_def correctTimestamp_zero correctTimestamp_formatSeconds)
  have "sortAndSequence env (map (correctSegment mediaLength) [?default]) = [?default]"
    using sortAndSequence_single [OF assms, of ?default] fixed by simp
  with MediaAssembly_Execute_success [OF s j l p t, of uuid]
  have run: "MediaAssembly_Execute env m uuid context =
           Return (Add (CtxOut env)
                     (MediaValue (assembleMedia uuid summary mediaLength [?default]))
                     (Add (mediaObjectParam m)
                        (MediaValue (assembleMedia uuid summary mediaLength [?default]))
                        (context\<lparr>successCounter := successCounter context + 1\<rparr>)))"
    by simp
  let ?media = "assembleMedia uuid summary mediaLength [?default]"
  let ?ctx = "Add (CtxOut env) (MediaValue ?media)
                (Add (mediaObjectParam m) (MediaValue ?media)
                   (context\<lparr>successCounter := successCounter context + 1\<rparr>))"
  have a: "store ?ctx (CtxOut env) = Some (MediaValue ?media)" by (rule store_Add_same)
  have b: "store ?ctx (mediaObjectParam m) = Some (MediaValue ?media)" by (rule store_Add_Add)
  have c: "Segments ?media = [?default]" by simp
  from run a b c
  show "\<exists>context' media.
               MediaAssembly_Execute env m uuid context = Return context' \<and>
               store context' (CtxOut env) = Some (MediaValue media) \<and>
               store context' (mediaObjectParam m) = Some (MediaValue media) \<and>
               Segments media = [?default]"
    by blast
next
  fix context'
  assume "MediaAssembly_Execute env m uuid context = Return context' \<and> errs context' = errs context"
  then have run: "MediaAssembly_Execute env m uuid context = Return context'"
    and noerr: "errs context' = errs context" by simp_all
  from MediaAssembly_Execute_assembled [OF run noerr]
  obtain summary' mediaLength' parsed segments where
    t: "those (if length parsed = 0
                  then parsed @ [Some \<lparr>SequenceNumber = 0, Start = ''00:00:00'',
                                        End = formatSeconds mediaLength',
                                        Script = MediaSummary.Summary summary'\<rparr>]
                  else parsed) = Some segments"
    and ctx: "context' =
      Add (CtxOut env)
        (MediaValue (assembleMedia uuid summary' mediaLength'
           (sortAndSequence env (map (correctSegment mediaLength') segments))))
        (Add (mediaObjectParam m)
           (MediaValue (assembleMedia uuid summary' mediaLength'
              (sortAndSequence env (map (correctSegment mediaLength') segments))))
           (context\<lparr>successCounter := successCounter context + 1\<rparr>))"
    by blast
  from those_length [OF t] have "0 < length segments" by (simp split: if_splits)
  then have "0 < length (sortAndSequence env (map (correctSegment mediaLength') segments))"
    by (simp add: sortAndSequence_length [OF assms])
  then have "Segments (assembleMedia uuid summary' mediaLength'
           (sortAndSequence env (map (correctSegment mediaLength') segments))) \<noteq> []"
    by simp
  moreover have "store context' (CtxOut env) = Some (MediaValue (assembleMedia uuid summary' mediaLength'
           (sortAndSequence env (map (correctSegment mediaLength') segments))))"
    unfolding ctx by (rule store_Add_same)
  ultimately show "\<exists>media. store context' (CtxOut env) = Some (MediaValue media) \<and> Segments media \<noteq> []"
    by blast
qed

lemma example_Execute_fallback:
  "MediaAssembly_Execute (assemblyEnv (Inr [])) exampleAssembly ''id'' (exampleContext [] t) =
   Return (Add ''out''
     (MediaValue (assembleMedia ''id'' exampleSummary t
        [\<lparr>SequenceNumber = 0, Start = correctTimestamp ''00:00:00'' t, End = formatSeconds t,
          Script = ''A summary''\<rparr>]))
     (Add ''media''
        (MediaValue (assembleMedia ''id'' exampleSummary t
           [\<lparr>SequenceNumber = 0, Start = correctTimestamp ''00:00:00'' t, End = formatSeconds t,
             Script = ''A summary''\<rparr>]))
        ((exampleContext [] t)\<lparr>successCounter := 1\<rparr>)))"
  by (simp add: MediaAssembly_Execute_def assembly_eval Let_def correctTimestamp_formatSeconds)

theorem C5_fallback_segment_witness:
  "\<exists>context' media.
     json_Unmarshal (assemblyEnv (Inr [])) (''[ '' @ Join [] '','' @ '' ]'') = Inr [] \<and>
     MediaAssembly_Execute (assemblyEnv (Inr [])) exampleAssembly ''id'' (exampleContext [] 120)
       = Return context' \<and>
     errs context' = [] \<and>
     store context' ''out'' = Some (MediaValue media) \<and>
     Segments media =
       [\<lparr>SequenceNumber = 0, Start = ''00:00:00'', End = ''00:02:00'', Script = ''A summary''\<rparr>]"
proof -
  let ?env = "assemblyEnv (Inr [])"
  let ?ctx = "exampleContext [] 120"
  have hyps: "store ?ctx (summaryParam exampleAssembly) = Some (SummaryValue exampleSummary) \<and>
          store ?ctx (segmentParam exampleAssembly) = Some (StringsValue []) \<and>
          store ?ctx (mediaLengthParam exampleAssembly) = Some (IntValue 120) \<and>
          json_Unmarshal ?env (''[ '' @ Join [] '','' @ '' ]'') = Inr [] \<and>
          0 \<le> sint (120 :: go_int)"
    by (simp add: assembly_eval)
  from C5_fallback_segment [OF assemblyEnv_contract [of "Inr []"],
      of ?ctx exampleAssembly exampleSummary "[]" 120 "''id''"] hyps
  obtain context' media where
    run: "MediaAssembly_Execute ?env exampleAssembly ''id'' ?ctx = Return context'"
    and out: "store context' (CtxOut ?env) = Some (MediaValue media)"
    and segs: "Segments media =
                 [\<lparr>SequenceNumber = 0, Start = ''00:00:00'', End = formatSeconds 120,
                   Script = MediaSummary.Summary exampleSummary\<rparr>]"
    by blast
  have fmt: "formatSeconds 120 = ''00:02:00''" by (simp add: eval_defs)
  have key: "CtxOut ?env = ''out''" by (simp add: assemblyEnv_def exampleEnv_def)
  from run have "errs context' = []"
    unfolding example_Execute_fallback by (auto simp: Add_def exampleContext_def)
  with run out segs fmt key hyps show ?thesis
    by (intro exI [of _ context'] exI [of _ media]) (simp add: exampleSummary_def)
qed

text \<open>
  For a negative media length the claim as first stated fails: the repair loop runs
  over the fallback segment too and clamps its start to the length.
\<close>

theorem C5_counterexample:
  "\<exists>context' media.
     json_Unmarshal (assemblyEnv (Inr [])) (''[ '' @ Join [] '','' @ '' ]'') = Inr [] \<and>
     MediaAssembly_Execute (assemblyEnv (Inr [])) exampleAssembly ''id'' (exampleContext [] (- 1))
       = Return context' \<and>
     store context' ''out'' = Some (MediaValue media) \<and>
     Segments media =
       [\<lparr>SequenceNumber = 0, Start = ''00:00:-1'', End = ''00:00:-1'', Script = ''A summary''\<rparr>]"
proof -
  have a: "correctTimestamp ''00:00:00'' (- 1) = ''00:00:-1''" by (simp add: eval_defs)
  have b: "formatSeconds (- 1) = ''00:00:-1''" by (simp add: eval_defs)
  show ?thesis
    unfolding example_Execute_fallback a b
    by (simp add: Add_def assemblyEnv_def exampleEnv_def)
qed

text \<open>
  Claim C6. When the comma-joined, bracket-wrapped payloads fail to parse as a segment
  array, the assembly stage reports exactly one error to the error accumulation (and
  counts it) and returns: the store of named values is what it was, so no \<open>Media\<close> and no
  output value has been written.
\<close>

theorem C6_parse_failure_reports_one_error:
  assumes "store context (summaryParam m) = Some (SummaryValue summary)"
    and "store context (segmentParam m) = Some (StringsValue jsonSegments)"
    and "store context (mediaLengthParam m) = Some (IntValue mediaLength)"
    and "json_Unmarshal env (''[ '' @ Join jsonSegments '','' @ '' ]'') = Inl e"
  shows "\<exists>context'.
           MediaAssembly_Execute env m uuid context = Return context' \<and>
           errs context' = errs context @ [(MediaAssembly.name m, e)] \<and>
           errorCounter context' = errorCounter context + 1 \<and>
           store context' = store context \<and>
           successCounter context' = successCounter context"
  unfolding MediaAssembly_Execute_parse_error [OF assms] by simp

theorem C6_parse_failure_reports_one_error_witness:
  "\<exists>context'.
     json_Unmarshal (assemblyEnv (Inl (Error ''unexpected end of JSON input'')))
       (''[ '' @ Join [''{''] '','' @ '' ]'') = Inl (Error ''unexpected end of JSON input'') \<and>
     MediaAssembly_Execute (assemblyEnv (Inl (Error ''unexpected end of JSON input'')))
       exampleAssembly ''id'' (exampleContext [''{''] 120) = Return context' \<and>
     errs context' = [(''assembly'', Error ''unexpected end of JSON input'')] \<and>
     errorCounter context' = 1 \<and>
     store context' ''out'' = None \<and> store context' ''media'' = None"
proof -
  let ?env = "assemblyEnv (Inl (Error ''unexpected end of JSON input''))"
  let ?ctx = "exampleContext [''{''] 120"
  have s: "store ?ctx (summaryParam exampleAssembly) = Some (SummaryValue exampleSummary)"
    and j: "store ?ctx (segmentParam exampleAssembly) = Some (StringsValue [''{''])"
    and l: "store ?ctx (mediaLengthParam exampleAssembly) = Some (IntValue 120)"
    and p: "json_Unmarshal ?env (''[ '' @ Join [''{''] '','' @ '' ]'')
              = Inl (Error ''unexpected end of JSON input'')"
    by (simp_all add: assembly_eval)
  from C6_parse_failure_reports_one_error [OF s j l p, of "''id''"]
  obtain context' where
    "MediaAssembly_Execute ?env exampleAssembly ''id'' ?ctx = Return context'"
    "errs context' = errs ?ctx @ [(MediaAssembly.name exampleAssembly, Error ''unexpected end of JSON input'')]"
    "errorCounter context' = errorCounter ?ctx + 1"
    "store context' = store ?ctx"
    by blast
  with p show ?thesis
    by (intro exI [of _ context']) (simp add: exampleContext_def exampleAssembly_def)
qed








section \<open>Lemmas on the worker pool\<close>

lemma sum_list_map_update:
  fixes f :: "'a \<Rightarrow> 'b::comm_monoid_add"
  shows "i < length xs \<Longrightarrow> sum_list (map f (xs[i := y])) + f (xs ! i) = sum_list (map f xs) + f y"
proof (induction xs arbitrary: i)
  case Nil
  then show ?case by simp
next
  case (Cons x xs)
  show ?case
  proof (cases i)
    case 0
    then show ?thesis by (simp add: ac_simps)
  next
    case (Suc k)
    with Cons.prems have "k < length xs" by simp
    from Cons.IH [OF this]
    have "sum_list (map f (xs[k := y])) + f (xs ! k) = sum_list (map f xs) + f y" .
    then have "f x + (sum_list (map f (xs[k := y])) + f (xs ! k)) = f x + (sum_list (map f xs) + f y)"
      by simp
    with Suc show ?thesis by (simp add: ac_simps)
  qed
qed

lemma sum_list_replicate_empty: "sum_list (replicate n ({#} :: 'a multiset)) = {#}"
  by (induction n) simp_all

lemma Receiving_capacity:
  assumes "w < length (workers p)" "workers p ! w = Receiving"
  shows "\<exists>c. pool_capacity env p = Suc c"
proof -
  from sum_list_map_update [OF assms(1), of "capacity env" Done] assms(2)
  have "sum_list (map (capacity env) ((workers p)[w := Done])) + 1 = pool_capacity env p"
    by (simp add: pool_capacity_def capacity_def)
  then show ?thesis by (cases "pool_capacity env p") simp_all
qed

lemma unprocessed_Nil [simp]: "unprocessed env c [] = []"
  by (cases c) simp_all

lemma processed_Nil [simp]: "processed env c [] = []"
  by (cases c) simp_all

lemma sent_Nil [simp]: "sent env [] = []"
  by (simp add: sent_def)

lemma sent_Cons: "sent env (j # js) = fst (segmentWorker_body env j) @ sent env js"
  by (simp add: sent_def)

text \<open>A step of a worker changes neither what the pool leaves in the channel in the end \<dots>\<close>

lemma worker_step_unprocessed:
  "unprocessed env (pool_capacity env (worker_step env w p)) (jobs (worker_step env w p))
     = unprocessed env (pool_capacity env p) (jobs p)"
proof (cases "w < length (workers p)")
  case False
  then show ?thesis by (simp add: worker_step_def)
next
  case True
  note upd = sum_list_map_update [OF True, of "capacity env"]
  show ?thesis
  proof (cases "workers p ! w")
    case Done
    with True show ?thesis by (simp add: worker_step_def)
  next
    case (Processing j)
    obtain out returned where body: "segmentWorker_body env j = (out, returned)"
      by (cases "segmentWorker_body env j")
    have "pool_capacity env (worker_step env w p) = pool_capacity env p"
      using upd [of "if returned then Done else Receiving"] True Processing body
      by (simp add: worker_step_def pool_capacity_def capacity_def split: if_splits)
    moreover have "jobs (worker_step env w p) = jobs p"
      using True Processing body by (simp add: worker_step_def)
    ultimately show ?thesis by simp
  next
    case Receiving
    show ?thesis
    proof (cases "jobs p")
      case Nil
      with True Receiving show ?thesis by (simp add: worker_step_def)
    next
      case (Cons j js)
      have cap: "pool_capacity env (worker_step env w p) + 1
                   = pool_capacity env p + (if snd (segmentWorker_body env j) then 0 else 1)"
        using upd [of "Processing j"] True Receiving Cons
        by (simp add: worker_step_def pool_capacity_def capacity_def)
      have jobs: "jobs (worker_step env w p) = js"
        using True Receiving Cons by (simp add: worker_step_def)
      from Receiving_capacity [OF True Receiving] obtain c where c: "pool_capacity env p = Suc c"
        by blast
      with cap have "pool_capacity env (worker_step env w p)
                       = (if snd (segmentWorker_body env j) then c else Suc c)"
        by (simp split: if_splits)
      with jobs c Cons show ?thesis by simp
    qed
  qed
qed

text \<open>\<dots> nor the responses that are in the results channel in the end.\<close>

lemma worker_step_responses:
  "mset (results (worker_step env w p)) + pool_in_hand env (worker_step env w p)
     + mset (sent env (processed env (pool_capacity env (worker_step env w p))
                         (jobs (worker_step env w p))))
   = mset (results p) + pool_in_hand env p
     + mset (sent env (processed env (pool_capacity env p) (jobs p)))"
proof (cases "w < length (workers p)")
  case False
  then show ?thesis by (simp add: worker_step_def)
next
  case True
  note cap = sum_list_map_update [OF True, of "capacity env"]
  note hand = sum_list_map_update [OF True, of "in_hand env"]
  show ?thesis
  proof (cases "workers p ! w")
    case Done
    with True show ?thesis by (simp add: worker_step_def)
  next
    case (Processing j)
    obtain out returned where body: "segmentWorker_body env j = (out, returned)"
      by (cases "segmentWorker_body env j")
    have c: "pool_capacity env (worker_step env w p) = pool_capacity env p"
      using cap [of "if returned then Done else Receiving"] True Processing body
      by (simp add: worker_step_def pool_capacity_def capacity_def split: if_splits)
    have j: "jobs (worker_step env w p) = jobs p"
      using True Processing body by (simp add: worker_step_def)
    have h: "pool_in_hand env (worker_step env w p) + mset out = pool_in_hand env p"
      using hand [of "if returned then Done else Receiving"] True Processing body
      by (simp add: worker_step_def pool_in_hand_def in_hand_def split: if_splits)
    have r: "mset (results (worker_step env w p)) = mset (results p) + mset out"
      using True Processing body by (simp add: worker_step_def)
    from h [symmetric] show ?thesis unfolding c j r by (simp add: ac_simps)
  next
    case Receiving
    show ?thesis
    proof (cases "jobs p")
      case Nil
      have "pool_in_hand env (worker_step env w p) = pool_in_hand env p"
        using hand [of Done] True Receiving Nil
        by (simp add: worker_step_def pool_in_hand_def in_hand_def)
      moreover have "results (worker_step env w p) = results p" "jobs (worker_step env w p) = []"
        using True Receiving Nil by (simp_all add: worker_step_def)
      ultimately show ?thesis using Nil by simp
    next
      case (Cons j js)
      have capeq: "pool_capacity env (worker_step env w p) + 1
                   = pool_capacity env p + (if snd (segmentWorker_body env j) then 0 else 1)"
        using cap [of "Processing j"] True Receiving Cons
        by (simp add: worker_step_def pool_capacity_def capacity_def)
      have j: "jobs (worker_step env w p) = js"
        and r: "results (worker_step env w p) = results p"
        using True Receiving Cons by (simp_all add: worker_step_def)
      have h: "pool_in_hand env (worker_step env w p)
                 = pool_in_hand env p + mset (fst (segmentWorker_body env j))"
        using hand [of "Processing j"] True Receiving Cons
        by (simp add: worker_step_def pool_in_hand_def in_hand_def)
      from Receiving_capacity [OF True Receiving] obtain c where c: "pool_capacity env p = Suc c"
        by blast
      with capeq have c': "pool_capacity env (worker_step env w p)
                       = (if snd (segmentWorker_body env j) then c else Suc c)"
        by (simp split: if_splits)
      show ?thesis unfolding j r h c c' Cons by (simp add: sent_Cons ac_simps)
    qed
  qed
qed

lemma run_workers_Cons:
  "run_workers env (w # schedule) p = run_workers env schedule (worker_step env w p)"
  by (simp add: run_workers_def)

lemma all_done_capacity: "all_done p \<Longrightarrow> pool_capacity env p = 0"
proof -
  assume "all_done p"
  then have "\<forall>w \<in> set (workers p). capacity env w = 0"
    by (auto simp: all_done_def list_all_iff capacity_def)
  then show ?thesis by (simp add: pool_capacity_def)
qed

lemma all_done_in_hand: "all_done p \<Longrightarrow> pool_in_hand env p = {#}"
proof -
  assume "all_done p"
  then have "\<forall>w \<in> set (workers p). in_hand env w = {#}"
    by (auto simp: all_done_def list_all_iff in_hand_def)
  then have "map (in_hand env) (workers p) = replicate (length (workers p)) {#}"
    by (simp add: map_replicate_const [symmetric] cong: map_cong)
  then show ?thesis by (simp add: pool_in_hand_def sum_list_replicate_empty)
qed

lemma complete_run_from:
  assumes "all_done (run_workers env schedule p)"
  shows "jobs (run_workers env schedule p) = unprocessed env (pool_capacity env p) (jobs p) \<and>
         mset (results (run_workers env schedule p))
           = mset (results p) + pool_in_hand env p
             + mset (sent env (processed env (pool_capacity env p) (jobs p)))"
  using assms
proof (induction schedule arbitrary: p)
  case Nil
  then have "all_done p" by (simp add: run_workers_def)
  then show ?case
    by (simp add: run_workers_def all_done_capacity all_done_in_hand)
next
  case (Cons w schedule)
  from Cons.prems have "all_done (run_workers env schedule (worker_step env w p))"
    by (simp add: run_workers_Cons)
  from Cons.IH [OF this] show ?case
    unfolding run_workers_Cons worker_step_unprocessed worker_step_responses by simp
qed

lemma start_pool_capacity: "pool_capacity env (start_pool n js) = n"
  by (simp add: pool_capacity_def start_pool_def capacity_def sum_list_replicate)

lemma start_pool_in_hand: "pool_in_hand env (start_pool n js) = {#}"
  by (simp add: pool_in_hand_def start_pool_def in_hand_def sum_list_replicate_empty)

lemma complete_run:
  assumes "all_done (run_workers env schedule (start_pool n js))"
  shows "jobs (run_workers env schedule (start_pool n js)) = unprocessed env n js"
    and "mset (results (run_workers env schedule (start_pool n js)))
           = mset (sent env (processed env n js))"
  using complete_run_from [OF assms]
  by (simp_all add: start_pool_capacity start_pool_in_hand) (simp_all add: start_pool_def)

text \<open>Every step of a worker that has not returned uses up some of the bound.\<close>

lemma worker_step_decreases:
  assumes "w < length (workers p)" "workers p ! w \<noteq> Done"
  shows "pool_steps_left (worker_step env w p) < pool_steps_left p"
proof -
  note upd = sum_list_map_update [OF assms(1), of steps_left]
  show ?thesis
  proof (cases "workers p ! w")
    case Done
    with assms(2) show ?thesis by simp
  next
    case (Processing j)
    obtain out returned where body: "segmentWorker_body env j = (out, returned)"
      by (cases "segmentWorker_body env j")
    have "sum_list (map steps_left ((workers p)[w := (if returned then Done else Receiving)])) + 3
            = sum_list (map steps_left (workers p)) + (if returned then 0 else 2)"
      using upd [of "if returned then Done else Receiving"] Processing
      by (simp add: steps_left_def)
    then show ?thesis
      using assms(1) Processing body
      by (simp add: pool_steps_left_def worker_step_def split: if_splits)
  next
    case Receiving
    show ?thesis
    proof (cases "jobs p")
      case Nil
      have "sum_list (map steps_left ((workers p)[w := Done])) + 2
              = sum_list (map steps_left (workers p))"
        using upd [of Done] Receiving by (simp add: steps_left_def)
      then show ?thesis
        using assms(1) Receiving Nil by (simp add: pool_steps_left_def worker_step_def)
    next
      case (Cons j js)
      have "sum_list (map steps_left ((workers p)[w := Processing j])) + 2
              = sum_list (map steps_left (workers p)) + 3"
        using upd [of "Processing j"] Receiving by (simp add: steps_left_def)
      then show ?thesis
        using assms(1) Receiving Cons by (simp add: pool_steps_left_def worker_step_def)
    qed
  qed
qed

text \<open>
  So the workers of every pool can run to their end: there is a schedule after which
  \<open>wg.Wait()\<close> returns.
\<close>

lemma complete_schedule_exists: "\<exists>schedule. all_done (run_workers env schedule p)"
proof (induction p rule: measure_induct_rule [of pool_steps_left])
  case (less p)
  show ?case
  proof (cases "all_done p")
    case True
    then have "all_done (run_workers env [] p)" by (simp add: run_workers_def)
    then show ?thesis by blast
  next
    case False
    then obtain w where w: "w < length (workers p)" "workers p ! w \<noteq> Done"
      by (auto simp: all_done_def list_all_iff in_set_conv_nth)
    from less [OF worker_step_decreases [OF w]]
    obtain schedule where "all_done (run_workers env schedule (worker_step env w p))"
      by blast
    then have "all_done (run_workers env (w # schedule) p)" by (simp add: run_workers_Cons)
    then show ?thesis by blast
  qed
qed

lemma aggregate_eq:
  "aggregate cmdName rs (ctx, segmentData) =
     (ctx\<lparr>errs := errs ctx @ map (Pair cmdName) (List.map_filter SegmentResponse.err rs),
               errorCounter := errorCounter ctx + length (List.map_filter SegmentResponse.err rs)\<rparr>,
      segmentData @ map val (filter (\<lambda>r. SegmentResponse.err r = None) rs))"
proof (induction rs arbitrary: ctx segmentData)
  case Nil
  show ?case by (simp add: List.map_filter_simps)
next
  case (Cons r rs)
  show ?case
  proof (cases "SegmentResponse.err r")
    case None
    with Cons show ?thesis by (simp add: List.map_filter_simps)
  next
    case (Some e)
    with Cons show ?thesis by (simp add: List.map_filter_simps AddError_def)
  qed
qed

lemma mset_map_filter_cong:
  "mset rs = mset rs' \<Longrightarrow> mset (List.map_filter f rs) = mset (List.map_filter f rs')"
proof -
  assume "mset rs = mset rs'"
  then have "image_mset (the \<circ> f) (filter_mset (\<lambda>x. f x \<noteq> None) (mset rs))
           = image_mset (the \<circ> f) (filter_mset (\<lambda>x. f x \<noteq> None) (mset rs'))"
    by simp
  then show ?thesis by (simp add: List.map_filter_def)
qed

lemma mset_values_cong:
  "mset rs = mset rs' \<Longrightarrow> mset (map g (filter P rs)) = mset (map g (filter P rs'))"
proof -
  assume "mset rs = mset rs'"
  then have "image_mset g (filter_mset P (mset rs)) = image_mset g (filter_mset P (mset rs'))"
    by simp
  then show ?thesis by simp
qed

lemma kept_iff_not_dropped:
  "(0 < length (Trim out) \<and> out \<noteq> ''{}'') \<longleftrightarrow> \<not> droppedPayload out"
  by (simp add: droppedPayload_def)

lemma sent_values:
  "map val (filter (\<lambda>r. SegmentResponse.err r = None) (sent env js)) = successPayloads env js"
proof (induction js)
  case Nil
  show ?case by simp
next
  case (Cons j js)
  show ?case
  proof (cases "SegmentJob.err j")
    case (Some e)
    with Cons show ?thesis by (simp add: sent_Cons segmentWorker_body_def)
  next
    case None
    show ?thesis
    proof (cases "GenerateMultiModalResponse env j")
      case (Inl e)
      with None Cons show ?thesis by (simp add: sent_Cons segmentWorker_body_def)
    next
      case (Inr out)
      with None Cons show ?thesis
        by (simp add: sent_Cons segmentWorker_body_def droppedPayload_def)
    qed
  qed
qed

lemma sent_errors:
  "List.map_filter SegmentResponse.err (sent env js) = jobErrors env js"
proof (induction js)
  case Nil
  show ?case by (simp add: List.map_filter_simps)
next
  case (Cons j js)
  have app: "List.map_filter f (xs @ ys) = List.map_filter f xs @ List.map_filter f ys"
    for f :: "SegmentResponse \<Rightarrow> error option" and xs ys
    by (simp add: List.map_filter_def)
  show ?case
  proof (cases "SegmentJob.err j")
    case (Some e)
    with Cons show ?thesis
      by (simp add: sent_Cons segmentWorker_body_def app List.map_filter_simps)
  next
    case None
    show ?thesis
    proof (cases "GenerateMultiModalResponse env j")
      case (Inl e)
      with None Cons show ?thesis
        by (simp add: sent_Cons segmentWorker_body_def app List.map_filter_simps)
    next
      case (Inr out)
      with None Cons show ?thesis
        by (simp add: sent_Cons segmentWorker_body_def app List.map_filter_simps)
    qed
  qed
qed

lemma successPayloads_kept: "out \<in> set (successPayloads env js) \<Longrightarrow> \<not> droppedPayload out"
  by (induction js) (auto split: option.splits sum.splits if_splits)

lemma SegmentExtractor_Execute_Return:
  assumes "SegmentExtractor_Execute env s schedule context = Some (Return context')"
    and "store context (inputParam s) = Some (SummaryValue summary)"
    and "store context (GCSObjectName env) = Some (GCSValue gcsFile)"
    and "store context (contentTypeParamName s) = Some (StringValue mediaType)"
  shows "all_done (run_workers env schedule
            (start_pool (nat (numberOfWorkers s)) (extractionJobs env mediaType summary gcsFile)))"
    and "\<exists>aggregated segmentData.
           aggregate (SegmentExtractor.name s)
             (results (run_workers env schedule
                (start_pool (nat (numberOfWorkers s)) (extractionJobs env mediaType summary gcsFile))))
             (context, []) = (aggregated, segmentData) \<and>
           errs context' = errs aggregated \<and>
           store context' = (store aggregated)(outputParam s \<mapsto> StringsValue segmentData,
                                               CtxOut env \<mapsto> StringsValue segmentData)"
proof -
  let ?p = "run_workers env schedule
            (start_pool (nat (numberOfWorkers s)) (extractionJobs env mediaType summary gcsFile))"
  from assms show fin: "all_done ?p"
    by (simp add: SegmentExtractor_Execute_def Let_def split: if_splits)
  obtain aggregated segmentData where
    agg: "aggregate (SegmentExtractor.name s) (results ?p) (context, []) = (aggregated, segmentData)"
    by (cases "aggregate (SegmentExtractor.name s) (results ?p) (context, [])")
  with assms fin have "context' =
      Add (CtxOut env) (StringsValue segmentData)
        (Add (outputParam s) (StringsValue segmentData)
           (if \<not> HasErrors aggregated
            then aggregated\<lparr>successCounter := successCounter aggregated + 1\<rparr>
            else aggregated))"
    by (simp add: SegmentExtractor_Execute_def Let_def)
  then have "errs context' = errs aggregated"
    and "store context' = (store aggregated)(outputParam s \<mapsto> StringsValue segmentData,
                                               CtxOut env \<mapsto> StringsValue segmentData)"
    by (simp_all add: Add_def)
  with agg show "\<exists>aggregated segmentData.
           aggregate (SegmentExtractor.name s) (results ?p) (context, []) = (aggregated, segmentData) \<and>
           errs context' = errs aggregated \<and>
           store context' = (store aggregated)(outputParam s \<mapsto> StringsValue segmentData,
                                               CtxOut env \<mapsto> StringsValue segmentData)"
    by blast
qed

section \<open>The extraction stage\<close>

text \<open>
  Claim C8. In every complete run of \<open>SegmentExtractor.Execute\<close>, the success list holds
  exactly the payloads of the processed jobs whose inference call succeeds, except the
  payloads that are empty once their spaces are trimmed or are the empty-object marker
  \<open>{}\<close>; and the errors reported to the error accumulation are exactly the errors
  of the processed jobs. So a dropped payload is neither in the success list nor
  reported as an error, and every other successful payload is in the success list.
\<close>

theorem C8_empty_payloads_dropped:
  assumes "SegmentExtractor_Execute env s schedule context = Some (Return context')"
    and "store context (inputParam s) = Some (SummaryValue summary)"
    and "store context (GCSObjectName env) = Some (GCSValue gcsFile)"
    and "store context (contentTypeParamName s) = Some (StringValue mediaType)"
  shows "\<exists>segmentData.
           store context' (CtxOut env) = Some (StringsValue segmentData) \<and>
           store context' (outputParam s) = Some (StringsValue segmentData) \<and>
           mset segmentData =
             mset (successPayloads env
                     (processed env (nat (numberOfWorkers s))
                        (extractionJobs env mediaType summary gcsFile))) \<and>
           (\<forall>out \<in> set segmentData. \<not> droppedPayload out) \<and>
           mset (errs context') =
             mset (errs context) +
             mset (map (Pair (SegmentExtractor.name s))
                     (jobErrors env
                        (processed env (nat (numberOfWorkers s))
                           (extractionJobs env mediaType summary gcsFile))))"
proof -
  let ?js = "extractionJobs env mediaType summary gcsFile"
  let ?n = "nat (numberOfWorkers s)"
  let ?p = "run_workers env schedule (start_pool ?n ?js)"
  let ?handled = "processed env ?n ?js"
  from SegmentExtractor_Execute_Return(1) [OF assms] have fin: "all_done ?p" .
  from SegmentExtractor_Execute_Return(2) [OF assms]
  obtain aggregated segmentData where
    agg: "aggregate (SegmentExtractor.name s) (results ?p) (context, []) = (aggregated, segmentData)"
    and errs: "errs context' = errs aggregated"
    and store: "store context' = (store aggregated)(outputParam s \<mapsto> StringsValue segmentData,
                                               CtxOut env \<mapsto> StringsValue segmentData)"
    by blast
  from complete_run(2) [OF fin] have results: "mset (results ?p) = mset (sent env ?handled)" .
  from agg have data: "segmentData = map val (filter (\<lambda>r. SegmentResponse.err r = None) (results ?p))"
    and reported: "errs aggregated =
      errs context @ map (Pair (SegmentExtractor.name s)) (List.map_filter SegmentResponse.err (results ?p))"
    unfolding aggregate_eq by auto
  have "mset (map val (filter (\<lambda>r. SegmentResponse.err r = None) (results ?p)))
      = mset (map val (filter (\<lambda>r. SegmentResponse.err r = None) (sent env ?handled)))"
    by (rule mset_values_cong [OF results])
  then have a: "mset segmentData = mset (successPayloads env ?handled)"
    by (simp only: data sent_values)
  have b: "\<forall>out \<in> set segmentData. \<not> droppedPayload out"
  proof
    fix out
    assume "out \<in> set segmentData"
    with a have "out \<in> set (successPayloads env ?handled)"
      by (metis set_mset_mset)
    then show "\<not> droppedPayload out" by (rule successPayloads_kept)
  qed
  have "mset (List.map_filter SegmentResponse.err (results ?p))
      = mset (List.map_filter SegmentResponse.err (sent env ?handled))"
    by (rule mset_map_filter_cong [OF results])
  then have "mset (List.map_filter SegmentResponse.err (results ?p)) = mset (jobErrors env ?handled)"
    by (simp only: sent_errors)
  then have c: "mset (errs context') =
      mset (errs context) + mset (map (Pair (SegmentExtractor.name s)) (jobErrors env ?handled))"
    unfolding errs reported by simp
  have d: "store context' (CtxOut env) = Some (StringsValue segmentData)"
    and e: "store context' (outputParam s) = Some (StringsValue segmentData)"
    unfolding store by simp_all
  from a b c d e show ?thesis by blast
qed

lemmas dispatch_eval = dispatchEnv_def emptyFirstEnv_def exampleEnv_def failingFirst_def
  emptyFirst_def job0_def job1_def segmentWorker_body_def Trim_def

lemma example_extractionJobs:
  "extractionJobs emptyFirstEnv ''movie'' exampleSummary gcsFile = [job0, job1]"
  by (simp add: extractionJobs_def CreateJob_def exampleSummary_def dispatch_eval)

lemma example_run_emptyFirst:
  "run_workers emptyFirstEnv [0, 0, 0, 0, 0] (start_pool (Suc 0) [job0, job1]) =
     \<lparr>jobs = [], results = [\<lparr>val = ''B'', err = None\<rparr>], workers = [Done]\<rparr>"
  by (simp add: run_workers_def start_pool_def worker_step_def dispatch_eval)

lemma example_Execute_emptyFirst:
  "SegmentExtractor_Execute emptyFirstEnv exampleExtractor [0, 0, 0, 0, 0] (exampleContext [] 120) =
     Some (Return (Add ''out'' (StringsValue [''B''])
                     (Add ''segments'' (StringsValue [''B''])
                        ((exampleContext [] 120)\<lparr>successCounter := 1\<rparr>))))"
proof -
  have s: "store (exampleContext [] 120) (inputParam exampleExtractor) = Some (SummaryValue exampleSummary)"
    and g: "store (exampleContext [] 120) (GCSObjectName emptyFirstEnv)
              = Some (GCSValue \<lparr>Bucket = ''bucket'', Name = ''film.mp4'', MIMEType = ''video/mp4''\<rparr>)"
    and c: "store (exampleContext [] 120) (contentTypeParamName exampleExtractor) = Some (StringValue ''movie'')"
    and n: "nat (numberOfWorkers exampleExtractor) = Suc 0"
    and k: "CtxOut emptyFirstEnv = ''out''" "outputParam exampleExtractor = ''segments''"
       "SegmentExtractor.name exampleExtractor = ''extractor''"
    by (simp_all add: exampleContext_def exampleExtractor_def emptyFirstEnv_def exampleEnv_def)
  have e: "errs (exampleContext [] 120) = []" "successCounter (exampleContext [] 120) = 0"
    by (simp_all add: exampleContext_def)
  show ?thesis
    by (simp add: SegmentExtractor_Execute_def s g c n k e example_extractionJobs
        example_run_emptyFirst Let_def all_done_def HasErrors_def)
qed

theorem C8_empty_payloads_dropped_witness:
  "\<exists>context'.
     SegmentExtractor_Execute emptyFirstEnv exampleExtractor [0, 0, 0, 0, 0] (exampleContext [] 120)
       = Some (Return context') \<and>
     GenerateMultiModalResponse emptyFirstEnv job0 = Inr ''{}'' \<and>
     GenerateMultiModalResponse emptyFirstEnv job1 = Inr ''B'' \<and>
     store context' ''out'' = Some (StringsValue [''B'']) \<and>
     errs context' = []"
proof -
  let ?ctx = "exampleContext [] 120"
  let ?gcs = "\<lparr>Bucket = ''bucket'', Name = ''film.mp4'', MIMEType = ''video/mp4''\<rparr>"
  have s: "store ?ctx (inputParam exampleExtractor) = Some (SummaryValue exampleSummary)"
    and g: "store ?ctx (GCSObjectName emptyFirstEnv) = Some (GCSValue ?gcs)"
    and c: "store ?ctx (contentTypeParamName exampleExtractor) = Some (StringValue ''movie'')"
    by (simp_all add: exampleContext_def exampleExtractor_def emptyFirstEnv_def exampleEnv_def)
  from C8_empty_payloads_dropped [OF example_Execute_emptyFirst s g c]
  obtain segmentData where
    out: "store (Add ''out'' (StringsValue [''B''])
                     (Add ''segments'' (StringsValue [''B''])
                        (?ctx\<lparr>successCounter := 1\<rparr>))) (CtxOut emptyFirstEnv)
            = Some (StringsValue segmentData)"
    and data: "mset segmentData =
             mset (successPayloads emptyFirstEnv
                     (processed emptyFirstEnv (nat (numberOfWorkers exampleExtractor))
                        (extractionJobs emptyFirstEnv ''movie'' exampleSummary ?gcs)))"
    and errs: "mset (errs (Add ''out'' (StringsValue [''B''])
                     (Add ''segments'' (StringsValue [''B''])
                        (?ctx\<lparr>successCounter := 1\<rparr>)))) =
             mset (errs ?ctx) +
             mset (map (Pair (SegmentExtractor.name exampleExtractor))
                     (jobErrors emptyFirstEnv
                        (processed emptyFirstEnv (nat (numberOfWorkers exampleExtractor))
                           (extractionJobs emptyFirstEnv ''movie'' exampleSummary ?gcs))))"
    by blast
  have n: "nat (numberOfWorkers exampleExtractor) = Suc 0" by (simp add: exampleExtractor_def)
  have "mset segmentData = {#''B''#}"
    unfolding data example_extractionJobs n
    by (simp add: dispatch_eval droppedPayload_def)
  then have "segmentData = [''B'']" by (rule mset_single_list)
  with out have "store (Add ''out'' (StringsValue [''B''])
                     (Add ''segments'' (StringsValue [''B''])
                        (?ctx\<lparr>successCounter := 1\<rparr>))) ''out'' = Some (StringsValue [''B''])"
    by (simp add: emptyFirstEnv_def exampleEnv_def)
  moreover from errs have "errs (Add ''out'' (StringsValue [''B''])
                     (Add ''segments'' (StringsValue [''B''])
                        (?ctx\<lparr>successCounter := 1\<rparr>))) = []"
    unfolding example_extractionJobs n
    by (simp add: dispatch_eval exampleContext_def)
  moreover have "GenerateMultiModalResponse emptyFirstEnv job0 = Inr ''{}''"
    "GenerateMultiModalResponse emptyFirstEnv job1 = Inr ''B''"
    by (simp_all add: dispatch_eval)
  ultimately show ?thesis
    using example_Execute_emptyFirst by blast
qed

lemma failingFirst_processed:
  "processed dispatchEnv (Suc 0) [job0, job1] = [job0]"
  by (simp add: dispatch_eval)

lemma failingFirst_unprocessed:
  "unprocessed dispatchEnv (Suc 0) [job0, job1] = [job1]"
  by (simp add: dispatch_eval)

lemma failingFirst_sent:
  "sent dispatchEnv [job0] = [\<lparr>val = [], err = Some (Error ''inference failed'')\<rparr>]"
  by (simp add: sent_def dispatch_eval)

lemma example_run_failingFirst:
  "run_workers dispatchEnv [0, 0] (start_pool 1 [job0, job1]) =
     \<lparr>jobs = [job1], results = [\<lparr>val = [], err = Some (Error ''inference failed'')\<rparr>],
      workers = [Done]\<rparr>"
  by (simp add: run_workers_def start_pool_def worker_step_def dispatch_eval)

lemma returns_iff_inferenceFails: "snd (segmentWorker_body env j) = inferenceFails env j"
  by (simp add: segmentWorker_body_def inferenceFails_def split: option.split sum.split)

lemma sends_none_iff_emptySuccess:
  "length (fst (segmentWorker_body env j)) = (if emptySuccess env j then 0 else 1)"
  by (simp add: segmentWorker_body_def emptySuccess_def droppedPayload_def
      split: option.split sum.split)

lemma length_sent:
  "length (sent env js) + length (filter (emptySuccess env) js) = length js"
  by (induction js) (simp_all add: sent_Cons sends_none_iff_emptySuccess)

lemma processed_all:
  "\<forall>j \<in> set js. \<not> inferenceFails env j \<Longrightarrow> processed env (Suc c) js = js"
  by (induction js) (simp_all add: returns_iff_inferenceFails)

lemma unprocessed_none:
  "\<forall>j \<in> set js. \<not> inferenceFails env j \<Longrightarrow> unprocessed env (Suc c) js = []"
  by (induction js) (simp_all add: returns_iff_inferenceFails)

text \<open>
  When no inference call fails, the pool is complete: with at least one worker, every
  job is processed, and every job contributes exactly one response to the results
  channel except a job whose inference call succeeds with a dropped payload, which
  contributes none.
\<close>

lemma dispatch_complete_without_failure:
  assumes "all_done (run_workers env schedule (start_pool numWorkers js))"
    and "0 < numWorkers"
    and "\<forall>j \<in> set js. \<not> inferenceFails env j"
  shows "jobs (run_workers env schedule (start_pool numWorkers js)) = []"
    and "length (results (run_workers env schedule (start_pool numWorkers js)))
           + length (filter (emptySuccess env) js) = length js"
proof -
  let ?p = "run_workers env schedule (start_pool numWorkers js)"
  from assms(2) obtain c where c: "numWorkers = Suc c" by (cases numWorkers) simp_all
  from complete_run(1) [OF assms(1)] have "jobs ?p = unprocessed env numWorkers js" .
  with assms(3) show "jobs ?p = []" unfolding c by (simp add: unprocessed_none)
  from complete_run(2) [OF assms(1)]
  have "mset (results ?p) = mset (sent env (processed env numWorkers js))" .
  with assms(3) have "mset (results ?p) = mset (sent env js)"
    unfolding c by (simp add: processed_all)
  then have "length (results ?p) = length (sent env js)" by (rule mset_eq_length)
  with length_sent [of env js]
  show "length (results ?p) + length (filter (emptySuccess env) js) = length js" by simp
qed

text \<open>
  Claim C3 fails on the code. One worker and two jobs, neither of them an empty
  success, the inference call failing for the first job: whatever the schedule, when
  every worker has returned (\<open>wg.Wait()\<close> returns) the results channel holds one response
  for the two jobs. The worker returns from its loop after the failure, and the second
  job gets no outcome.
\<close>

theorem C3_two_jobs_one_result:
  assumes "all_done (run_workers dispatchEnv schedule (start_pool 1 [job0, job1]))"
  shows "length [job0, job1] = 2 \<and>
         \<not> emptySuccess dispatchEnv job0 \<and> \<not> emptySuccess dispatchEnv job1 \<and>
         length (results (run_workers dispatchEnv schedule (start_pool 1 [job0, job1]))) = 1"
proof -
  let ?p = "run_workers dispatchEnv schedule (start_pool 1 [job0, job1])"
  from complete_run(2) [OF assms]
  have "mset (results ?p) = mset (sent dispatchEnv (processed dispatchEnv 1 [job0, job1]))" .
  then have "mset (results ?p) = {#\<lparr>val = [], err = Some (Error ''inference failed'')\<rparr>#}"
    unfolding One_nat_def failingFirst_processed failingFirst_sent by simp
  then have "results ?p = [\<lparr>val = [], err = Some (Error ''inference failed'')\<rparr>]"
    by (rule mset_single_list)
  then have "length (results ?p) = 1" by simp
  moreover have "\<not> emptySuccess dispatchEnv job0" "\<not> emptySuccess dispatchEnv job1"
    by (simp_all add: emptySuccess_def droppedPayload_def dispatch_eval)
  ultimately show ?thesis by simp
qed

theorem C3_two_jobs_one_result_witness:
  "all_done (run_workers dispatchEnv [0, 0] (start_pool 1 [job0, job1])) \<and>
   length [job0, job1] = 2 \<and>
   length (results (run_workers dispatchEnv [0, 0] (start_pool 1 [job0, job1]))) = 1"
proof -
  have fin: "all_done (run_workers dispatchEnv [0, 0] (start_pool 1 [job0, job1]))"
    unfolding example_run_failingFirst by (simp add: all_done_def)
  from C3_two_jobs_one_result [OF fin] fin show ?thesis by simp
qed

text \<open>
  Claim C4 fails on the code. One worker and two jobs, the inference call failing for
  the first job and ready to answer \<open>B\<close> for the second: whatever the schedule, when
  every worker has returned (\<open>wg.Wait()\<close> returns) the second job is still in the jobs
  channel, never processed, and the only response is the failure of the first job. The
  worker returns from its loop after the failure.
\<close>

theorem C4_job_behind_failure_unprocessed:
  assumes "all_done (run_workers dispatchEnv schedule (start_pool 1 [job0, job1]))"
  shows "GenerateMultiModalResponse dispatchEnv job1 = Inr ''B'' \<and>
         jobs (run_workers dispatchEnv schedule (start_pool 1 [job0, job1])) = [job1] \<and>
         results (run_workers dispatchEnv schedule (start_pool 1 [job0, job1]))
           = [\<lparr>val = [], err = Some (Error ''inference failed'')\<rparr>]"
proof -
  let ?p = "run_workers dispatchEnv schedule (start_pool 1 [job0, job1])"
  from complete_run(1) [OF assms] have "jobs ?p = unprocessed dispatchEnv 1 [job0, job1]" .
  then have a: "jobs ?p = [job1]" unfolding One_nat_def failingFirst_unprocessed .
  from complete_run(2) [OF assms]
  have "mset (results ?p) = mset (sent dispatchEnv (processed dispatchEnv 1 [job0, job1]))" .
  then have "mset (results ?p) = {#\<lparr>val = [], err = Some (Error ''inference failed'')\<rparr>#}"
    unfolding One_nat_def failingFirst_processed failingFirst_sent by simp
  then have b: "results ?p = [\<lparr>val = [], err = Some (Error ''inference failed'')\<rparr>]"
    by (rule mset_single_list)
  have c: "GenerateMultiModalResponse dispatchEnv job1 = Inr ''B''"
    by (simp add: dispatch_eval)
  from a b c show ?thesis by simp
qed

theorem C4_job_behind_failure_unprocessed_witness:
  "all_done (run_workers dispatchEnv [0, 0] (start_pool 1 [job0, job1])) \<and>
   GenerateMultiModalResponse dispatchEnv job1 = Inr ''B'' \<and>
   jobs (run_workers dispatchEnv [0, 0] (start_pool 1 [job0, job1])) = [job1] \<and>
   results (run_workers dispatchEnv [0, 0] (start_pool 1 [job0, job1]))
     = [\<lparr>val = [], err = Some (Error ''inference failed'')\<rparr>]"
proof -
  have fin: "all_done (run_workers dispatchEnv [0, 0] (start_pool 1 [job0, job1]))"
    unfolding example_run_failingFirst by (simp add: all_done_def)
  from C4_job_behind_failure_unprocessed [OF fin] fin show ?thesis by simp
qed

end
